theory Spec2Isabelle
  imports Complex_Main "HOL-Library.Log_Nat"
begin

unbundle bit_operations_syntax

section \<open>JavaScript strings and arrays\<close>

text \<open>
  Strings are modelled as \<^typ>\<open>string\<close>, one \<^typ>\<open>char\<close> per code unit; the character
  classes below (white space, upper case) are the ASCII ones, so the model covers ASCII
  text, which is what identifiers and list strings are made of.
\<close>

text \<open>\<^verbatim>\<open>s.split(sep)\<close> for a one-character separator: the empty string splits into one
  empty piece.\<close>

fun split :: "char \<Rightarrow> string \<Rightarrow> string list" where
  "split sep [] = [[]]"
| "split sep (c # cs) =
     (if c = sep then [] # split sep cs
      else (case split sep cs of
              [] \<Rightarrow> [[c]]
            | w # ws \<Rightarrow> (c # w) # ws))"

text \<open>\<^verbatim>\<open>items.join(sep)\<close>.\<close>

fun join :: "char \<Rightarrow> string list \<Rightarrow> string" where
  "join sep [] = []"
| "join sep [w] = w"
| "join sep (w # v # ws) = w @ sep # join sep (v # ws)"

text \<open>\<^verbatim>\<open>s.startsWith(w)\<close> and \<^verbatim>\<open>s.includes(w)\<close>: \<open>w\<close> occurs in \<open>s\<close> as a contiguous
  substring.\<close>

fun startsWith :: "string \<Rightarrow> string \<Rightarrow> bool" where
  "startsWith s [] = True"
| "startsWith [] (c # w) = False"
| "startsWith (d # s) (c # w) = (d = c \<and> startsWith s w)"

fun stringIncludes :: "string \<Rightarrow> string \<Rightarrow> bool" where
  "stringIncludes [] w = (w = [])"
| "stringIncludes (c # cs) w = (if startsWith (c # cs) w then True else stringIncludes cs w)"

definition isWhiteSpace :: "char \<Rightarrow> bool" where
  "isWhiteSpace c = (c = CHR '' '' \<or> c = CHR 0x09 \<or> c = CHR 0x0A \<or> c = CHR 0x0B
                     \<or> c = CHR 0x0C \<or> c = CHR 0x0D)"

definition trim :: "string \<Rightarrow> string" where
  "trim s = rev (dropWhile isWhiteSpace (rev (dropWhile isWhiteSpace s)))"

definition lowerChar :: "char \<Rightarrow> char" where
  "lowerChar c =
     (case map_of (zip ''ABCDEFGHIJKLMNOPQRSTUVWXYZ'' ''abcdefghijklmnopqrstuvwxyz'') c of
        None \<Rightarrow> c
      | Some d \<Rightarrow> d)"

definition toLowerCase :: "string \<Rightarrow> string" where
  "toLowerCase s = map lowerChar s"

text \<open>\<^verbatim>\<open>xs.some(p)\<close> and \<^verbatim>\<open>xs.includes(x)\<close> on arrays.\<close>

fun some :: "('a \<Rightarrow> bool) \<Rightarrow> 'a list \<Rightarrow> bool" where
  "some p [] = False"
| "some p (x # xs) = (if p x then True else some p xs)"

fun arrayIncludes :: "'a list \<Rightarrow> 'a \<Rightarrow> bool" where
  "arrayIncludes [] y = False"
| "arrayIncludes (x # xs) y = (if x = y then True else arrayIncludes xs y)"

text \<open>\<^verbatim>\<open>xs.findIndex(p)\<close>: the first index whose element satisfies \<open>p\<close>, or \<open>-1\<close>.\<close>

fun findIndexFrom :: "int \<Rightarrow> ('a \<Rightarrow> bool) \<Rightarrow> 'a list \<Rightarrow> int" where
  "findIndexFrom i p [] = - 1"
| "findIndexFrom i p (x # xs) = (if p x then i else findIndexFrom (i + 1) p xs)"

definition findIndex :: "('a \<Rightarrow> bool) \<Rightarrow> 'a list \<Rightarrow> int" where
  "findIndex p xs = findIndexFrom 0 p xs"

section \<open>The retention policy: \<open>shouldIgnore\<close>\<close>

text \<open>The argument object of \<open>shouldIgnore\<close>. Fields declared optional in the interface
  (\<open>guildId?\<close>, \<open>ghostPinged?\<close>, \<open>isCachedByUs?\<close>, \<open>content?\<close>) are options, \<open>None\<close> being
  \<open>undefined\<close>; \<open>flags\<close> is an integer bit mask.\<close>

record ShouldIgnoreArguments =
  channelId :: string
  authorId :: string
  guildId :: "string option"
  flags :: int
  bot :: bool
  ghostPinged :: "bool option"
  isCachedByUs :: "bool option"
  content :: "string option"

text \<open>The fields of \<open>settings.store\<close> that the policy and the list maintenance read.\<close>

record SettingsStore =
  whitelistedIds :: string
  blacklistedIds :: string
  blacklistedWords :: string
  alwaysLogDirectMessages :: bool
  alwaysLogCurrentChannel :: bool
  ignoreBots :: bool
  ignoreSelf :: bool
  ignoreMutedGuilds :: bool
  ignoreMutedCategories :: bool
  ignoreMutedChannels :: bool
  cacheMessagesFromServers :: bool

text \<open>What the host application's stores answer: \<open>UserStore.getCurrentUser().id\<close>,
  \<open>ChannelStore.getChannel(c)?.isDM?.()\<close> and the three mute queries of
  \<open>UserGuildSettingsStore\<close>. They are outside the repository and are taken as given.\<close>

record Stores =
  myId :: string
  isDM :: "string \<Rightarrow> bool"
  isMuted :: "string \<Rightarrow> bool"
  isCategoryMuted :: "string option \<Rightarrow> string \<Rightarrow> bool"
  isChannelMuted :: "string option \<Rightarrow> string \<Rightarrow> bool"

definition EPHEMERAL :: int where
  "EPHEMERAL = 64"

text \<open>\<^verbatim>\<open>a & b\<close>: both operands are converted to 32-bit two's complement first.\<close>

definition toInt32 :: "int \<Rightarrow> int" where
  "toInt32 n = signed_take_bit 31 n"

definition bitAnd :: "int \<Rightarrow> int \<Rightarrow> int" where
  "bitAnd a b = toInt32 a AND toInt32 b"

definition isEphemeral :: "ShouldIgnoreArguments \<Rightarrow> bool" where
  "isEphemeral args = (bitAnd (flags args) EPHEMERAL = EPHEMERAL)"

text \<open>A truthy optional boolean, and the string an optional string is converted to when
  it is passed to \<^verbatim>\<open>String.prototype.includes\<close>.\<close>

definition truthy :: "bool option \<Rightarrow> bool" where
  "truthy b = (case b of None \<Rightarrow> False | Some v \<Rightarrow> v)"

definition toStringOpt :: "string option \<Rightarrow> string" where
  "toStringOpt s = (case s of None \<Rightarrow> ''undefined'' | Some v \<Rightarrow> v)"

definition ids :: "ShouldIgnoreArguments \<Rightarrow> string option list" where
  "ids args = [Some (authorId args), Some (channelId args), guildId args]"

definition isWhitelisted :: "SettingsStore \<Rightarrow> ShouldIgnoreArguments \<Rightarrow> bool" where
  "isWhitelisted st args =
     some (\<lambda>e. arrayIncludes (ids args) (Some e)) (split CHR '','' (whitelistedIds st))"

definition isBlacklisted :: "SettingsStore \<Rightarrow> ShouldIgnoreArguments \<Rightarrow> bool" where
  "isBlacklisted st args =
     some (\<lambda>e. arrayIncludes (ids args) (Some e)) (split CHR '','' (blacklistedIds st))"

definition isAuthorWhitelisted :: "SettingsStore \<Rightarrow> ShouldIgnoreArguments \<Rightarrow> bool" where
  "isAuthorWhitelisted st args = stringIncludes (whitelistedIds st) (authorId args)"

definition isChannelWhitelisted :: "SettingsStore \<Rightarrow> ShouldIgnoreArguments \<Rightarrow> bool" where
  "isChannelWhitelisted st args = stringIncludes (whitelistedIds st) (channelId args)"

definition isGuildWhitelisted :: "SettingsStore \<Rightarrow> ShouldIgnoreArguments \<Rightarrow> bool" where
  "isGuildWhitelisted st args = stringIncludes (whitelistedIds st) (toStringOpt (guildId args))"

definition isAuthorBlacklisted :: "SettingsStore \<Rightarrow> ShouldIgnoreArguments \<Rightarrow> bool" where
  "isAuthorBlacklisted st args = stringIncludes (blacklistedIds st) (authorId args)"

definition isChannelBlacklisted :: "SettingsStore \<Rightarrow> ShouldIgnoreArguments \<Rightarrow> bool" where
  "isChannelBlacklisted st args = stringIncludes (blacklistedIds st) (channelId args)"

definition blackListedWords :: "SettingsStore \<Rightarrow> string list" where
  "blackListedWords st =
     filter (\<lambda>w. 0 < length w)
       (map (\<lambda>w. toLowerCase (trim w)) (split CHR '','' (blacklistedWords st)))"

text \<open>The condition of the blacklisted-word rule: \<open>content\<close> is a non-empty string and
  contains one of the words.\<close>

definition hasBlacklistedWord :: "SettingsStore \<Rightarrow> ShouldIgnoreArguments \<Rightarrow> bool" where
  "hasBlacklistedWord st args =
     (case content args of
        None \<Rightarrow> False
      | Some c \<Rightarrow>
          (if c = [] then False
           else some (\<lambda>w. stringIncludes (toLowerCase (trim c)) w) (blackListedWords st)))"

text \<open>\<open>shouldIgnore\<close>, rule by rule in the order of the source; \<open>True\<close> is ignore. The calls
  to the logger have no effect on the result and are left out. By the declared types
  \<open>channelId\<close>, \<open>authorId\<close> and \<open>flags\<close> are never \<open>null\<close>, so the source's guards on them
  (\<^verbatim>\<open>flags ?? 0\<close>, \<^verbatim>\<open>channelId ?? "-1"\<close>, \<^verbatim>\<open>channelId != null\<close>) always pass.\<close>

definition shouldIgnore :: "Stores \<Rightarrow> SettingsStore \<Rightarrow> ShouldIgnoreArguments \<Rightarrow> bool" where
  "shouldIgnore env st args =
     (if isEphemeral args then True
      else if hasBlacklistedWord st args then True
      else if ignoreSelf st \<and> authorId args = myId env then True
      else if alwaysLogDirectMessages st \<and> isDM env (channelId args) then False
      else if ignoreBots st \<and> bot args \<and> \<not> isAuthorWhitelisted st args then True
      else if truthy (ghostPinged args) then False
      else if isAuthorWhitelisted st args \<or> isChannelWhitelisted st args
              \<or> isWhitelisted st args \<or> alwaysLogCurrentChannel st then False
      else if isAuthorBlacklisted st args \<or> isChannelBlacklisted st args
              \<or> isBlacklisted st args then True
      else if truthy (isCachedByUs args) \<and> \<not> cacheMessagesFromServers st
              \<and> guildId args \<noteq> None \<and> \<not> isGuildWhitelisted st args then True
      else if (case guildId args of
                 None \<Rightarrow> False
               | Some g \<Rightarrow> ignoreMutedGuilds st \<and> isMuted env g) then True
      else if ignoreMutedCategories st
              \<and> isCategoryMuted env (guildId args) (channelId args) then True
      else if ignoreMutedChannels st
              \<and> isChannelMuted env (guildId args) (channelId args) then True
      else False)"

section \<open>List maintenance\<close>

text \<open>\<^verbatim>\<open>xs.indexOf(y)\<close>, and \<^verbatim>\<open>xs.splice(start, deleteCount, ...items)\<close> with the
  normalisation of \<open>start\<close> that JavaScript applies (a negative start counts from the end,
  a start beyond the end is the end). The model returns the array after the call.\<close>

definition indexOf :: "'a list \<Rightarrow> 'a \<Rightarrow> int" where
  "indexOf xs y = findIndex (\<lambda>x. x = y) xs"

definition splice :: "int \<Rightarrow> nat \<Rightarrow> 'a list \<Rightarrow> 'a list \<Rightarrow> 'a list" where
  "splice start deleteCount items xs =
     (let len = int (length xs);
          s = nat (if start < 0 then max (len + start) 0 else min start len)
      in take s xs @ items @ drop (s + deleteCount) xs)"

datatype ListType = BlacklistedIds | WhitelistedIds

definition getList :: "SettingsStore \<Rightarrow> ListType \<Rightarrow> string" where
  "getList st list =
     (case list of BlacklistedIds \<Rightarrow> blacklistedIds st | WhitelistedIds \<Rightarrow> whitelistedIds st)"

definition setList :: "SettingsStore \<Rightarrow> ListType \<Rightarrow> string \<Rightarrow> SettingsStore" where
  "setList st list v =
     (case list of
        BlacklistedIds \<Rightarrow> st\<lparr>blacklistedIds := v\<rparr>
      | WhitelistedIds \<Rightarrow> st\<lparr>whitelistedIds := v\<rparr>)"

text \<open>The items both functions start from:
  \<^verbatim>\<open>settings.store[list] ? settings.store[list].split(",") : []\<close>.\<close>

definition storedItems :: "SettingsStore \<Rightarrow> ListType \<Rightarrow> string list" where
  "storedItems st list =
     (if getList st list = [] then [] else split CHR '','' (getList st list))"

definition addToX :: "SettingsStore \<Rightarrow> ListType \<Rightarrow> string \<Rightarrow> SettingsStore" where
  "addToX st list i = setList st list (join CHR '','' (storedItems st list @ [i]))"

definition removeFromX :: "SettingsStore \<Rightarrow> ListType \<Rightarrow> string \<Rightarrow> SettingsStore" where
  "removeFromX st list i =
     (let items = storedItems st list;
          index = indexOf items i;
          items' = (if index \<noteq> - 1 then splice index 1 [] items else items)
      in setList st list (join CHR '','' items'))"

definition oppositeListType :: "ListType \<Rightarrow> ListType" where
  "oppositeListType list =
     (if list = BlacklistedIds then WhitelistedIds else BlacklistedIds)"

definition addToXAndRemoveFromOpposite ::
    "SettingsStore \<Rightarrow> ListType \<Rightarrow> string \<Rightarrow> SettingsStore" where
  "addToXAndRemoveFromOpposite st list i =
     addToX (removeFromX st (oppositeListType list) i) list i"

section \<open>JavaScript numbers\<close>

text \<open>
  A JavaScript number is an IEEE 754 binary64 value: \<open>NaN\<close>, an infinity, or a finite
  value, modelled as the rational it denotes (the sign of zero is not kept; no result
  below depends on it). \<open>toNumber\<close> is the rounding every arithmetic operation ends with:
  to the nearest value with a 53-bit significand, ties to even, with the fixed quantum
  \<open>2 powi - 1074\<close> in the subnormal range and overflow to infinity from \<open>2 ^ 1024\<close> on.
\<close>

datatype number = NaN | NegInf | Fin rat | PosInf

text \<open>For \<open>x \<noteq> 0\<close>, the exponent \<open>e\<close> with \<open>2 powi e \<le> \<bar>x\<bar> < 2 powi (e + 1)\<close>.\<close>

definition binaryExponent :: "rat \<Rightarrow> int" where
  "binaryExponent x =
     (if 1 \<le> \<bar>x\<bar> then bitlen \<lfloor>\<bar>x\<bar>\<rfloor> - 1 else - bitlen (\<lceil>1 / \<bar>x\<bar>\<rceil> - 1))"

definition roundTiesToEven :: "rat \<Rightarrow> int" where
  "roundTiesToEven x =
     (let f = \<lfloor>x\<rfloor>; d = x - of_int f
      in if d < 1 / 2 then f
         else if 1 / 2 < d then f + 1
         else if even f then f else f + 1)"

definition roundToDouble :: "rat \<Rightarrow> rat" where
  "roundToDouble x =
     (if x = 0 then 0
      else let q = max (binaryExponent x - 52) (- 1074)
           in of_int (roundTiesToEven (x / 2 powi q)) * 2 powi q)"

definition toNumber :: "rat \<Rightarrow> number" where
  "toNumber x =
     (let y = roundToDouble x
      in if 2 ^ 1024 \<le> y then PosInf
         else if y \<le> - (2 ^ 1024) then NegInf
         else Fin y)"

text \<open>Addition, subtraction, division and the comparisons \<^verbatim>\<open><\<close> and \<^verbatim>\<open>>\<close>.\<close>

fun numAdd :: "number \<Rightarrow> number \<Rightarrow> number" where
  "numAdd (Fin a) (Fin b) = toNumber (a + b)"
| "numAdd NaN y = NaN"
| "numAdd x NaN = NaN"
| "numAdd PosInf NegInf = NaN"
| "numAdd NegInf PosInf = NaN"
| "numAdd PosInf y = PosInf"
| "numAdd NegInf y = NegInf"
| "numAdd x PosInf = PosInf"
| "numAdd x NegInf = NegInf"

fun numNeg :: "number \<Rightarrow> number" where
  "numNeg NaN = NaN"
| "numNeg NegInf = PosInf"
| "numNeg (Fin a) = Fin (- a)"
| "numNeg PosInf = NegInf"

definition numSub :: "number \<Rightarrow> number \<Rightarrow> number" where
  "numSub x y = numAdd x (numNeg y)"

fun numDiv :: "number \<Rightarrow> number \<Rightarrow> number" where
  "numDiv (Fin a) (Fin b) =
     (if b = 0 then (if a = 0 then NaN else if 0 < a then PosInf else NegInf)
      else toNumber (a / b))"
| "numDiv NaN y = NaN"
| "numDiv x NaN = NaN"
| "numDiv (Fin a) y = Fin 0"
| "numDiv x (Fin b) = (if (x = PosInf) = (0 \<le> b) then PosInf else NegInf)"
| "numDiv x y = NaN"

fun numLess :: "number \<Rightarrow> number \<Rightarrow> bool" where
  "numLess (Fin a) (Fin b) = (a < b)"
| "numLess NaN y = False"
| "numLess x NaN = False"
| "numLess x NegInf = False"
| "numLess PosInf y = False"
| "numLess x y = True"

definition numGreater :: "number \<Rightarrow> number \<Rightarrow> bool" where
  "numGreater x y = numLess y x"

text \<open>\<^verbatim>\<open>parseInt(s)\<close> without a radix: leading white space is skipped, a sign is read, a
  prefix \<^verbatim>\<open>0x\<close> or \<^verbatim>\<open>0X\<close> selects radix 16, and the longest prefix of digits is the
  value; no digit gives \<open>NaN\<close>. \<open>mathInt\<close> is the integer read, before it is converted to a
  number. The digits are read exactly; ECMAScript lets an implementation zero decimal
  digits after the twentieth, which no 64-bit id has.\<close>

definition digitValue :: "char \<Rightarrow> nat option" where
  "digitValue c =
     map_of (zip ''0123456789abcdefghijklmnopqrstuvwxyz'' [0 ..< 36]) (lowerChar c)"

definition isDigitOf :: "nat \<Rightarrow> char \<Rightarrow> bool" where
  "isDigitOf radix c = (case digitValue c of None \<Rightarrow> False | Some v \<Rightarrow> v < radix)"

definition digitsValue :: "nat \<Rightarrow> string \<Rightarrow> int" where
  "digitsValue radix z =
     foldl (\<lambda>acc c. acc * int radix + int (case digitValue c of None \<Rightarrow> 0 | Some v \<Rightarrow> v)) 0 z"

definition mathInt :: "string \<Rightarrow> int option" where
  "mathInt inputString =
     (let s = dropWhile isWhiteSpace inputString;
          sign = (if startsWith s ''-'' then - 1 else 1);
          s1 = (if startsWith s ''+'' \<or> startsWith s ''-'' then drop 1 s else s);
          hex = (startsWith s1 ''0x'' \<or> startsWith s1 ''0X'');
          radix = (if hex then 16 else 10);
          s2 = (if hex then drop 2 s1 else s1);
          z = takeWhile (isDigitOf radix) s2
      in if z = [] then None else Some (sign * digitsValue radix z))"

definition parseInt :: "string \<Rightarrow> number" where
  "parseInt inputString =
     (case mathInt inputString of None \<Rightarrow> NaN | Some n \<Rightarrow> toNumber (of_int n))"

section \<open>The reconciler: \<open>reAddDeletedMessages\<close>\<close>

text \<open>A message is its \<open>id\<close> and the rest of its fields, which the reconciler never
  looks at. An entry of \<open>loggedMessages\<close> is a record with an optional \<open>message\<close>; the store
  maps a message id to its entry, \<open>None\<close> for \<open>undefined\<close>.\<close>

record 'a LoggedMessageJSON =
  msg_id :: string
  msg_rest :: 'a

record 'a LoggedRecord =
  message :: "'a LoggedMessageJSON option"

type_synonym 'a LoggedMessages = "string \<Rightarrow> 'a LoggedRecord option"

text \<open>The interface \<open>Id\<close>: field \<open>ident\<close> is the source's \<open>id\<close>.\<close>

record Id =
  ident :: string
  time :: number

datatype error = TypeError

definition DISCORD_EPOCH :: number where
  "DISCORD_EPOCH = Fin 1420070400000"

text \<open>The expression \<^verbatim>\<open>parseInt(id) / 4194304 + DISCORD_EPOCH\<close> of both collecting loops.\<close>

definition idTime :: "string \<Rightarrow> number" where
  "idTime i = numAdd (numDiv (parseInt i) (Fin 4194304)) DISCORD_EPOCH"

definition toId :: "string \<Rightarrow> Id" where
  "toId i = \<lparr>ident = i, time = idTime i\<rparr>"

text \<open>\<^verbatim>\<open>xs.sort(cmp)\<close>: the array sorted stably by the comparator, a positive result
  placing the first argument after the second and \<open>NaN\<close> counting as zero. It is written
  as an insertion sort. For a consistent comparator every stable sort gives this result;
  with \<open>NaN\<close> times the comparator is not consistent, ECMAScript leaves the order to the
  implementation, and the insertion sort is one such order.\<close>

fun insertBy :: "('a \<Rightarrow> 'a \<Rightarrow> number) \<Rightarrow> 'a \<Rightarrow> 'a list \<Rightarrow> 'a list" where
  "insertBy cmp x [] = [x]"
| "insertBy cmp x (y # ys) =
     (if numGreater (cmp x y) (Fin 0) then y # insertBy cmp x ys else x # y # ys)"

definition arraySort :: "('a \<Rightarrow> 'a \<Rightarrow> number) \<Rightarrow> 'a list \<Rightarrow> 'a list" where
  "arraySort cmp xs = foldr (insertBy cmp) xs []"

text \<open>\<^verbatim>\<open>xs.slice(start, end)\<close>, with the same normalisation of negative indices.\<close>

definition slice :: "'a list \<Rightarrow> int \<Rightarrow> int \<Rightarrow> 'a list" where
  "slice xs start end' =
     (let len = int (length xs);
          k = nat (if start < 0 then max (len + start) 0 else min start len);
          final = nat (if end' < 0 then max (len + end') 0 else min end' len)
      in take (final - k) (drop k xs))"

text \<open>Modelled from the spec: \<open>findLastIndex\<close> is imported from \<^verbatim>\<open>./misc\<close>, which is not
  among the sources. The specification uses it for "the last deleted record whose time is
  strictly less than the time of the newest live message", the search failing when there
  is "no qualifying index": the last index whose element satisfies the predicate, or
  \<open>-1\<close>.\<close>

definition findLastIndex :: "'a list \<Rightarrow> ('a \<Rightarrow> bool) \<Rightarrow> int" where
  "findLastIndex xs p =
     (let r = findIndex p (rev xs)
      in if r = - 1 then - 1 else int (length xs) - 1 - r)"

text \<open>The final loop: \<open>i\<close> runs over the indices of \<open>reAddIDs\<close>, whose length is fixed
  before the loop; \<open>messages\<close> is the array as spliced so far. Reading \<open>.message\<close> of an
  undefined entry throws.\<close>

fun reAddLoop ::
    "'a LoggedMessages \<Rightarrow> Id list \<Rightarrow> int \<Rightarrow> 'a LoggedMessageJSON list
      \<Rightarrow> error + 'a LoggedMessageJSON list" where
  "reAddLoop loggedMessages [] i messages = Inr messages"
| "reAddLoop loggedMessages (e # reAddIDs) i messages =
     (if findIndex (\<lambda>m. msg_id m = ident e) messages \<noteq> - 1
      then reAddLoop loggedMessages reAddIDs (i + 1) messages
      else (case loggedMessages (ident e) of
              None \<Rightarrow> Inl TypeError
            | Some record \<Rightarrow>
                (case message record of
                   None \<Rightarrow> reAddLoop loggedMessages reAddIDs (i + 1) messages
                 | Some m \<Rightarrow>
                     reAddLoop loggedMessages reAddIDs (i + 1) (splice i 0 [m] messages))))"

text \<open>The ids of the live messages with their times, and the deleted ids that have an
  entry in the store, sorted by ascending time.\<close>

definition liveIDs :: "'a LoggedMessageJSON list \<Rightarrow> Id list" where
  "liveIDs messages = map (\<lambda>m. toId (msg_id m)) messages"

definition savedIDs :: "'a LoggedMessages \<Rightarrow> string list \<Rightarrow> Id list" where
  "savedIDs loggedMessages deletedMessages =
     arraySort (\<lambda>a b. numSub (time a) (time b))
       (map toId (filter (\<lambda>i. loggedMessages i \<noteq> None) deletedMessages))"

text \<open>\<open>reAddDeletedMessages\<close>: the result is \<open>messages\<close> as the call leaves it, or the
  exception thrown. An absent \<open>deletedMessages\<close> (\<open>None\<close>) returns at once, like an empty
  one.\<close>

definition reAddDeletedMessages ::
    "'a LoggedMessages \<Rightarrow> 'a LoggedMessageJSON list \<Rightarrow> string list option \<Rightarrow> bool \<Rightarrow> bool
      \<Rightarrow> error + 'a LoggedMessageJSON list" where
  "reAddDeletedMessages loggedMessages messages deletedMessages channelStart channelEnd =
     (case deletedMessages of
        None \<Rightarrow> Inr messages
      | Some deleted \<Rightarrow>
          if messages = [] \<or> deleted = [] then Inr messages
          else
            let IDs = liveIDs messages;
                saved = savedIDs loggedMessages deleted
            in if saved = [] then Inr messages
               else
                 let lowestTime = time (last IDs);
                     highestTime = time (hd IDs);
                     lowestIDX = (if channelEnd then 0
                                  else findIndex (\<lambda>e. numGreater (time e) lowestTime) saved)
                 in if lowestIDX = - 1 then Inr messages
                    else
                      let highestIDX =
                            (if channelStart then int (length saved) - 1
                             else findLastIndex saved (\<lambda>e. numLess (time e) highestTime))
                      in if highestIDX = - 1 then Inr messages
                         else
                           let reAddIDs =
                                 arraySort (\<lambda>a b. numSub (time b) (time a))
                                   (slice saved lowestIDX (highestIDX + 1) @ IDs)
                           in reAddLoop loggedMessages reAddIDs 0 messages)"

section \<open>Sample inputs\<close>

text \<open>Concrete stores, settings and messages on which the theorems below are instantiated.
  In \<open>sampleStores\<close> the current user is \<open>100\<close>, channel \<open>500\<close> is a direct-message channel
  and everything is muted; \<open>sampleSettings\<close> switches every ignore rule on and has id \<open>200\<close>
  on both lists.\<close>

abbreviation sampleStores :: Stores where
  "sampleStores \<equiv>
     \<lparr>myId = ''100'', isDM = (\<lambda>c. c = ''500''), isMuted = (\<lambda>g. True),
      isCategoryMuted = (\<lambda>g c. True), isChannelMuted = (\<lambda>g c. True)\<rparr>"

abbreviation sampleSettings :: SettingsStore where
  "sampleSettings \<equiv>
     \<lparr>whitelistedIds = ''200,300'', blacklistedIds = ''200,400'',
      blacklistedWords = ''Spam, ads'', alwaysLogDirectMessages = True,
      alwaysLogCurrentChannel = False, ignoreBots = True, ignoreSelf = True,
      ignoreMutedGuilds = True, ignoreMutedCategories = True, ignoreMutedChannels = True,
      cacheMessagesFromServers = False\<rparr>"

abbreviation sampleArgs ::
    "string \<Rightarrow> string \<Rightarrow> int \<Rightarrow> string \<Rightarrow> ShouldIgnoreArguments" where
  "sampleArgs c a f txt \<equiv>
     \<lparr>channelId = c, authorId = a, guildId = Some ''600'', flags = f, bot = True,
      ghostPinged = None, isCachedByUs = Some True, content = Some txt\<rparr>"

text \<open>Messages without further fields, and a store that holds exactly the given ids, each
  with its message cached.\<close>

abbreviation sampleMessage :: "string \<Rightarrow> unit LoggedMessageJSON" where
  "sampleMessage i \<equiv> \<lparr>msg_id = i, msg_rest = ()\<rparr>"

abbreviation sampleLogged :: "string list \<Rightarrow> unit LoggedMessages" where
  "sampleLogged ks \<equiv>
     (\<lambda>k. if k \<in> set ks then Some \<lparr>message = Some (sampleMessage k)\<rparr> else None)"

section \<open>Properties of the retention policy\<close>

lemma and_64_iff_bit: "((m::int) AND 64 = 64) = bit m 6"
proof -
  have e: "(64::int) = 2 ^ 6" by simp
  have "(m AND 2 ^ 6 = 2 ^ 6) = bit m 6"
  proof
    assume "m AND 2 ^ 6 = 2 ^ 6"
    then have "bit (m AND 2 ^ 6) 6 = bit ((2::int) ^ 6) 6" by (rule arg_cong)
    then show "bit m 6" by (simp only: bit_and_iff bit_exp_iff) simp
  next
    assume b: "bit m 6"
    show "m AND 2 ^ 6 = 2 ^ 6"
    proof (rule bit_eqI)
      fix n
      show "bit (m AND 2 ^ 6) n = bit ((2::int) ^ 6) n"
        using b by (auto simp only: bit_and_iff bit_exp_iff)
    qed
  qed
  then show ?thesis by (simp only: e)
qed

lemma isEphemeral_iff_bit: "isEphemeral args = bit (flags args) 6"
proof -
  have "toInt32 64 = 64" by (simp add: toInt32_def)
  then have "isEphemeral args = (toInt32 (flags args) AND 64 = 64)"
    by (simp add: isEphemeral_def bitAnd_def EPHEMERAL_def)
  also have "\<dots> = bit (toInt32 (flags args)) 6" by (rule and_64_iff_bit)
  also have "\<dots> = bit (flags args) 6" by (simp add: toInt32_def bit_signed_take_bit_iff)
  finally show ?thesis .
qed

lemma some_iff: "some p xs = (\<exists>x \<in> set xs. p x)"
  by (induction xs) auto

lemma arrayIncludes_iff: "arrayIncludes xs y = (y \<in> set xs)"
  by (induction xs) auto

lemma startsWith_iff: "startsWith s w = (\<exists>t. s = w @ t)"
  by (induction s w rule: startsWith.induct) auto

lemma stringIncludes_iff: "stringIncludes s w = (\<exists>p t. s = p @ w @ t)"
proof (induction s)
  case Nil
  then show ?case by simp
next
  case (Cons c cs)
  show ?case
  proof
    assume "stringIncludes (c # cs) w"
    then consider "startsWith (c # cs) w" | "stringIncludes cs w"
      by (auto split: if_splits)
    then show "\<exists>p t. c # cs = p @ w @ t"
    proof cases
      case 1
      then obtain t where "c # cs = [] @ w @ t" by (auto simp: startsWith_iff)
      then show ?thesis by blast
    next
      case 2
      then obtain p t where "cs = p @ w @ t" using Cons.IH by blast
      then have "c # cs = (c # p) @ w @ t" by simp
      then show ?thesis by blast
    qed
  next
    assume "\<exists>p t. c # cs = p @ w @ t"
    then obtain p t where e: "c # cs = p @ w @ t" by blast
    show "stringIncludes (c # cs) w"
    proof (cases p)
      case Nil
      then have "startsWith (c # cs) w" using e by (auto simp: startsWith_iff)
      then show ?thesis by simp
    next
      case (Cons d q)
      then have "cs = q @ w @ t" using e by simp
      then have "stringIncludes cs w" using Cons.IH by blast
      then show ?thesis by simp
    qed
  qed
qed

lemma sample_no_blacklisted_word:
  "\<not> hasBlacklistedWord (sampleSettings\<lparr>whitelistedIds := w\<rparr>) (sampleArgs c a f ''hello'')"
  by (simp add: hasBlacklistedWord_def blackListedWords_def trim_def toLowerCase_def
      lowerChar_def isWhiteSpace_def)

lemma sample_blacklisted_word:
  "hasBlacklistedWord sampleSettings (sampleArgs c a f ''Buy SPAM now'')"
  by (simp add: hasBlacklistedWord_def blackListedWords_def trim_def toLowerCase_def
      lowerChar_def isWhiteSpace_def)

text \<open>
  \<^bold>\<open>C2\<close> (ephemeral precedence). Whenever bit 6 of \<open>flags\<close> (the bit of value 64) is set,
  \<open>shouldIgnore\<close> returns \<open>True\<close>, whatever the stores, the settings (white list, black
  list, toggles) and the other fields of the message are.
\<close>

theorem ephemeral_always_ignored:
  "bit (flags args) 6 \<Longrightarrow> shouldIgnore env st args"
  by (simp add: shouldIgnore_def isEphemeral_iff_bit)

text \<open>An instance: flags \<open>192 = 128 + 64\<close> on a direct message of the whitelisted author
  \<open>300\<close>.\<close>

theorem ephemeral_always_ignored_witness:
  "bit (flags (sampleArgs ''500'' ''300'' 192 ''hello'')) 6
   \<and> isWhitelisted sampleSettings (sampleArgs ''500'' ''300'' 192 ''hello'')
   \<and> shouldIgnore sampleStores sampleSettings (sampleArgs ''500'' ''300'' 192 ''hello'')"
proof -
  have b: "bit (flags (sampleArgs ''500'' ''300'' 192 ''hello'')) 6" by simp
  have w: "isWhitelisted sampleSettings (sampleArgs ''500'' ''300'' 192 ''hello'')"
    by (simp add: isWhitelisted_def ids_def)
  show ?thesis using b w ephemeral_always_ignored [OF b] by blast
qed

text \<open>
  \<^bold>\<open>C1\<close> (white list before black list). If some entry \<open>e\<close> of the split white list is the
  author id, the channel id or the guild id, and none of the rules that ignore before the
  white-list rule fires (ephemeral, blacklisted word, self with \<open>ignoreSelf\<close>, bot with
  \<open>ignoreBots\<close> whose author the bot rule does not find in the white list), then
  \<open>shouldIgnore\<close> returns \<open>False\<close>; nothing is assumed about the black list. The
  direct-message rule and the ghost-ping rule need no hypothesis: they keep as well.
\<close>

theorem whitelist_before_blacklist:
  assumes "\<not> isEphemeral args"
    and "\<not> hasBlacklistedWord st args"
    and "\<not> (ignoreSelf st \<and> authorId args = myId env)"
    and "\<not> (ignoreBots st \<and> bot args \<and> \<not> isAuthorWhitelisted st args)"
    and "e \<in> set (split CHR '','' (whitelistedIds st))"
    and "e = authorId args \<or> e = channelId args \<or> guildId args = Some e"
  shows "\<not> shouldIgnore env st args"
proof -
  have "isWhitelisted st args"
    using assms(5,6) by (auto simp: isWhitelisted_def some_iff arrayIncludes_iff ids_def)
  then show ?thesis
    using assms(1-4) by (auto simp: shouldIgnore_def)
qed

text \<open>An instance: author \<open>200\<close> is on both lists and writes in the blacklisted channel
  \<open>400\<close> of a muted guild; the message is kept.\<close>

theorem whitelist_before_blacklist_witness:
  "''200'' \<in> set (split CHR '','' (whitelistedIds sampleSettings))
   \<and> ''200'' \<in> set (split CHR '','' (blacklistedIds sampleSettings))
   \<and> ''400'' \<in> set (split CHR '','' (blacklistedIds sampleSettings))
   \<and> isBlacklisted sampleSettings (sampleArgs ''400'' ''200'' 0 ''hello'')
   \<and> \<not> shouldIgnore sampleStores sampleSettings (sampleArgs ''400'' ''200'' 0 ''hello'')"
proof -
  let ?a = "sampleArgs ''400'' ''200'' 0 ''hello''"
  have h1: "\<not> isEphemeral ?a" by (simp add: isEphemeral_iff_bit)
  have h2: "\<not> hasBlacklistedWord sampleSettings ?a"
    using sample_no_blacklisted_word [of "''200,300''"] by simp
  have h3: "\<not> (ignoreSelf sampleSettings \<and> authorId ?a = myId sampleStores)" by simp
  have h4: "\<not> (ignoreBots sampleSettings \<and> bot ?a \<and> \<not> isAuthorWhitelisted sampleSettings ?a)"
    by (simp add: isAuthorWhitelisted_def)
  have h5: "''200'' \<in> set (split CHR '','' (whitelistedIds sampleSettings))" by simp
  have h6: "''200'' = authorId ?a \<or> ''200'' = channelId ?a \<or> guildId ?a = Some ''200''"
    by simp
  have b: "isBlacklisted sampleSettings ?a" by (simp add: isBlacklisted_def ids_def)
  have "\<not> shouldIgnore sampleStores sampleSettings ?a"
    using whitelist_before_blacklist [OF h1 h2 h3 h4 h5 h6] .
  then show ?thesis using b by simp
qed

text \<open>
  \<^bold>\<open>C3\<close> (self before white list). With \<open>ignoreSelf\<close> set and the current user as author,
  \<open>shouldIgnore\<close> returns \<open>True\<close>, whatever the white list holds. The two side conditions
  of the specification (ephemeral bit unset, no blacklisted word) say that the self rule
  is the one that decides; they are not needed for the result, since both earlier rules
  ignore too.
\<close>

theorem self_before_whitelist:
  "ignoreSelf st \<Longrightarrow> authorId args = myId env \<Longrightarrow> shouldIgnore env st args"
  by (simp add: shouldIgnore_def)

text \<open>An instance: the current user \<open>100\<close> is whitelisted, the ephemeral bit is unset and
  the content has no blacklisted word.\<close>

theorem self_before_whitelist_witness:
  "ignoreSelf (sampleSettings\<lparr>whitelistedIds := ''100''\<rparr>)
   \<and> authorId (sampleArgs ''400'' ''100'' 0 ''hello'') = myId sampleStores
   \<and> \<not> isEphemeral (sampleArgs ''400'' ''100'' 0 ''hello'')
   \<and> \<not> hasBlacklistedWord (sampleSettings\<lparr>whitelistedIds := ''100''\<rparr>)
         (sampleArgs ''400'' ''100'' 0 ''hello'')
   \<and> isWhitelisted (sampleSettings\<lparr>whitelistedIds := ''100''\<rparr>)
         (sampleArgs ''400'' ''100'' 0 ''hello'')
   \<and> isAuthorWhitelisted (sampleSettings\<lparr>whitelistedIds := ''100''\<rparr>)
         (sampleArgs ''400'' ''100'' 0 ''hello'')
   \<and> shouldIgnore sampleStores (sampleSettings\<lparr>whitelistedIds := ''100''\<rparr>)
         (sampleArgs ''400'' ''100'' 0 ''hello'')"
proof -
  let ?s = "sampleSettings\<lparr>whitelistedIds := ''100''\<rparr>"
  let ?a = "sampleArgs ''400'' ''100'' 0 ''hello''"
  have h1: "ignoreSelf ?s" by simp
  have h2: "authorId ?a = myId sampleStores" by simp
  have h3: "\<not> isEphemeral ?a" by (simp add: isEphemeral_iff_bit)
  have h4: "\<not> hasBlacklistedWord ?s ?a" by (rule sample_no_blacklisted_word)
  have h5: "isWhitelisted ?s ?a" by (simp add: isWhitelisted_def ids_def)
  have h6: "isAuthorWhitelisted ?s ?a" by (simp add: isAuthorWhitelisted_def)
  show ?thesis
    using h1 h2 h3 h4 h5 h6 self_before_whitelist [OF h1 h2] by blast
qed

text \<open>
  \<^bold>\<open>C4\<close> (direct-message override). With \<open>alwaysLogDirectMessages\<close> set and a
  direct-message channel, the result is decided by the first three rules alone: the message
  is ignored exactly when it is ephemeral, contains a blacklisted word, or is the user's own
  with \<open>ignoreSelf\<close>; otherwise it is kept, whatever the bot, ghost-ping, white-list,
  black-list, cached-by-us and muted rules would say.
\<close>

theorem direct_message_override:
  assumes "alwaysLogDirectMessages st" and "isDM env (channelId args)"
  shows "shouldIgnore env st args =
           (isEphemeral args \<or> hasBlacklistedWord st args
            \<or> (ignoreSelf st \<and> authorId args = myId env))"
  using assms by (auto simp: shouldIgnore_def)

text \<open>Two instances in the direct-message channel \<open>500\<close>: a bot that is blacklisted and not
  whitelisted is kept; the same message with a blacklisted word is ignored.\<close>

theorem direct_message_override_witness:
  "alwaysLogDirectMessages sampleSettings
   \<and> isDM sampleStores (channelId (sampleArgs ''500'' ''400'' 0 ''hello''))
   \<and> isBlacklisted sampleSettings (sampleArgs ''500'' ''400'' 0 ''hello'')
   \<and> \<not> isAuthorWhitelisted sampleSettings (sampleArgs ''500'' ''400'' 0 ''hello'')
   \<and> \<not> shouldIgnore sampleStores sampleSettings (sampleArgs ''500'' ''400'' 0 ''hello'')
   \<and> shouldIgnore sampleStores sampleSettings (sampleArgs ''500'' ''400'' 0 ''Buy SPAM now'')"
proof -
  let ?a = "sampleArgs ''500'' ''400'' 0 ''hello''"
  let ?b = "sampleArgs ''500'' ''400'' 0 ''Buy SPAM now''"
  have h1: "alwaysLogDirectMessages sampleSettings" by simp
  have h2: "isDM sampleStores (channelId ?a)" by simp
  have h2': "isDM sampleStores (channelId ?b)" by simp
  have e: "\<not> isEphemeral ?a" by (simp add: isEphemeral_iff_bit)
  have w: "\<not> hasBlacklistedWord sampleSettings ?a"
    using sample_no_blacklisted_word [of "''200,300''"] by simp
  have s: "\<not> (ignoreSelf sampleSettings \<and> authorId ?a = myId sampleStores)" by simp
  have b: "isBlacklisted sampleSettings ?a" by (simp add: isBlacklisted_def ids_def)
  have n: "\<not> isAuthorWhitelisted sampleSettings ?a" by (simp add: isAuthorWhitelisted_def)
  have k: "\<not> shouldIgnore sampleStores sampleSettings ?a"
    using direct_message_override [OF h1 h2] e w s by blast
  have i: "shouldIgnore sampleStores sampleSettings ?b"
    using direct_message_override [OF h1 h2'] sample_blacklisted_word by blast
  show ?thesis using h1 h2 b n k i by blast
qed

text \<open>
  \<^bold>\<open>C10\<close> (substring membership). The per-entity checks look for the id as a substring of
  the raw list string. With the white list \<open>1234\<close> and the bot author \<open>23\<close>: the only entry
  of the list is \<open>1234\<close>, the author is not an entry and no id of the message is one, yet
  \<open>isAuthorWhitelisted\<close> holds, the bot rule (with \<open>ignoreBots\<close> set) lets the message
  pass and \<open>shouldIgnore\<close> keeps it. With the white list \<open>1254\<close>, of which \<open>23\<close> is no
  substring, the same message is ignored.
\<close>

theorem substring_membership_whitelists_bot:
  "split CHR '','' ''1234'' = [''1234'']
   \<and> \<not> arrayIncludes (split CHR '','' ''1234'') ''23''
   \<and> stringIncludes ''1234'' ''23''
   \<and> ignoreBots (sampleSettings\<lparr>whitelistedIds := ''1234''\<rparr>)
   \<and> bot (sampleArgs ''700'' ''23'' 0 ''hello'')
   \<and> \<not> isWhitelisted (sampleSettings\<lparr>whitelistedIds := ''1234''\<rparr>)
         (sampleArgs ''700'' ''23'' 0 ''hello'')
   \<and> isAuthorWhitelisted (sampleSettings\<lparr>whitelistedIds := ''1234''\<rparr>)
         (sampleArgs ''700'' ''23'' 0 ''hello'')
   \<and> \<not> shouldIgnore sampleStores (sampleSettings\<lparr>whitelistedIds := ''1234''\<rparr>)
         (sampleArgs ''700'' ''23'' 0 ''hello'')
   \<and> shouldIgnore sampleStores (sampleSettings\<lparr>whitelistedIds := ''1254''\<rparr>)
         (sampleArgs ''700'' ''23'' 0 ''hello'')"
proof -
  let ?s = "sampleSettings\<lparr>whitelistedIds := ''1234''\<rparr>"
  let ?t = "sampleSettings\<lparr>whitelistedIds := ''1254''\<rparr>"
  let ?a = "sampleArgs ''700'' ''23'' 0 ''hello''"
  have e: "\<not> isEphemeral ?a" by (simp add: isEphemeral_iff_bit)
  have w: "\<not> hasBlacklistedWord ?s ?a" "\<not> hasBlacklistedWord ?t ?a"
    by (rule sample_no_blacklisted_word)+
  have a1: "isAuthorWhitelisted ?s ?a" by (simp add: isAuthorWhitelisted_def)
  have a2: "\<not> isAuthorWhitelisted ?t ?a" by (simp add: isAuthorWhitelisted_def)
  have n: "\<not> isWhitelisted ?s ?a" by (simp add: isWhitelisted_def ids_def)
  have k: "\<not> shouldIgnore sampleStores ?s ?a"
    using e w(1) a1 by (simp add: shouldIgnore_def)
  have i: "shouldIgnore sampleStores ?t ?a"
    using e w(2) a2 by (simp add: shouldIgnore_def)
  show ?thesis using a1 n k i by simp
qed

section \<open>Properties of the list maintenance\<close>

lemma split_no_sep: "w \<in> set (split sep s) \<Longrightarrow> sep \<notin> set w"
  by (induction s arbitrary: w) (auto split: if_splits list.splits)

lemma split_append_sep:
  "sep \<notin> set w \<Longrightarrow> split sep (w @ sep # s) = w # split sep s"
  by (induction w) (auto split: list.splits)

lemma split_sep_free: "sep \<notin> set w \<Longrightarrow> split sep w = [w]"
  by (induction w) (auto split: list.splits)

lemma split_join:
  "ws \<noteq> [] \<Longrightarrow> (\<forall>w \<in> set ws. sep \<notin> set w) \<Longrightarrow> split sep (join sep ws) = ws"
  by (induction sep ws rule: join.induct) (auto simp: split_sep_free split_append_sep)

lemma findIndexFrom_eq:
  "findIndexFrom i p xs =
     (if \<exists>x \<in> set xs. p x then i + int (length (takeWhile (\<lambda>x. \<not> p x) xs)) else - 1)"
  by (induction xs arbitrary: i) auto

lemma findIndex_none: "(findIndex p xs = - 1) = (\<forall>x \<in> set xs. \<not> p x)"
  by (simp add: findIndex_def findIndexFrom_eq)

lemma takeWhile_short: "\<exists>x \<in> set xs. \<not> P x \<Longrightarrow> length (takeWhile P xs) < length xs"
  by (induction xs) auto

lemma findIndex_range:
  "findIndex p xs \<noteq> - 1 \<Longrightarrow> 0 \<le> findIndex p xs \<and> findIndex p xs < int (length xs)"
  using takeWhile_short [of xs "\<lambda>x. \<not> p x"]
  by (auto simp: findIndex_def findIndexFrom_eq split: if_splits)

lemma remove1_takeWhile:
  "y \<in> set xs \<Longrightarrow>
     remove1 y xs = takeWhile (\<lambda>x. x \<noteq> y) xs @ drop (Suc (length (takeWhile (\<lambda>x. x \<noteq> y) xs))) xs"
  by (induction xs) auto

lemma take_takeWhile_length: "take (length (takeWhile P xs)) xs = takeWhile P xs"
  by (induction xs) auto

lemma splice_indexOf:
  assumes "indexOf xs y \<noteq> - 1"
  shows "splice (indexOf xs y) 1 [] xs = remove1 y xs"
proof -
  let ?k = "length (takeWhile (\<lambda>x. x \<noteq> y) xs)"
  have m: "y \<in> set xs"
    using assms by (auto simp: indexOf_def findIndex_none)
  then have i: "indexOf xs y = int ?k"
    by (auto simp: indexOf_def findIndex_def findIndexFrom_eq)
  have "?k < length xs" using m takeWhile_short [of xs "\<lambda>x. x \<noteq> y"] by auto
  then have "splice (indexOf xs y) 1 [] xs = take ?k xs @ drop (Suc ?k) xs"
    by (simp add: splice_def i Let_def min_def)
  also have "take ?k xs = takeWhile (\<lambda>x. x \<noteq> y) xs"
    by (rule take_takeWhile_length)
  finally show ?thesis using remove1_takeWhile [OF m] by simp
qed

lemma removeFromX_items:
  "getList (removeFromX st list i) list = join CHR '','' (remove1 i (storedItems st list))"
proof (cases "indexOf (storedItems st list) i = - 1")
  case True
  then have "i \<notin> set (storedItems st list)"
    by (auto simp: indexOf_def findIndex_none)
  then have "remove1 i (storedItems st list) = storedItems st list"
    by (simp add: remove1_idem)
  then show ?thesis using True
    by (cases list) (simp_all add: removeFromX_def getList_def setList_def)
next
  case False
  then show ?thesis using splice_indexOf [OF False]
    by (cases list) (simp_all add: removeFromX_def getList_def setList_def)
qed

lemma removeFromX_other:
  "list' \<noteq> list \<Longrightarrow> getList (removeFromX st list i) list' = getList st list'"
  by (cases list; cases list') (simp_all add: removeFromX_def getList_def setList_def Let_def)

lemma addToX_items:
  "getList (addToX st list i) list = join CHR '','' (storedItems st list @ [i])"
  by (cases list) (simp_all add: addToX_def getList_def setList_def)

lemma addToX_other:
  "list' \<noteq> list \<Longrightarrow> getList (addToX st list i) list' = getList st list'"
  by (cases list; cases list') (simp_all add: addToX_def getList_def setList_def)

lemma storedItems_sep_free: "w \<in> set (storedItems st list) \<Longrightarrow> CHR '','' \<notin> set w"
  by (auto simp: storedItems_def dest: split_no_sep split: if_splits)

lemma count_storedItems:
  "count_list (storedItems st list) i \<le> count_list (split CHR '','' (getList st list)) i"
  by (simp add: storedItems_def)

lemma oppositeListType_neq: "oppositeListType list \<noteq> list"
  by (cases list) (simp_all add: oppositeListType_def)

lemma remove1_single: "count_list xs y \<le> 1 \<Longrightarrow> y \<notin> set (remove1 y xs)"
  by (induction xs) (auto simp: count_list_0_iff split: if_splits)

text \<open>
  \<^bold>\<open>C6\<close> (one list only), as amended. For an id that is non-empty and has no comma, and a
  prior state in which the id occurs at most once among the entries of the opposite list:
  after \<open>addToXAndRemoveFromOpposite\<close> the id is an entry of the named list and no entry of
  the opposite list. Entries are those of \<^verbatim>\<open>split(",")\<close>, as \<open>shouldIgnore\<close> reads the
  lists. Nothing is assumed about duplicates in the named list.
\<close>

theorem add_and_remove_from_opposite:
  assumes "i \<noteq> []" and "CHR '','' \<notin> set i"
    and "count_list (split CHR '','' (getList st (oppositeListType list))) i \<le> 1"
  shows "i \<in> set (split CHR '','' (getList (addToXAndRemoveFromOpposite st list i) list))
         \<and> i \<notin> set (split CHR '','' (getList (addToXAndRemoveFromOpposite st list i)
                                       (oppositeListType list)))"
proof -
  let ?opp = "oppositeListType list"
  let ?st1 = "removeFromX st ?opp i"
  let ?st2 = "addToXAndRemoveFromOpposite st list i"
  have st2: "?st2 = addToX ?st1 list i"
    by (simp add: addToXAndRemoveFromOpposite_def)
  have neq: "?opp \<noteq> list" by (rule oppositeListType_neq)
  let ?items = "storedItems ?st1 list @ [i]"
  have "\<forall>w \<in> set ?items. CHR '','' \<notin> set w"
    using assms(2) storedItems_sep_free by auto
  then have "split CHR '','' (join CHR '','' ?items) = ?items"
    by (intro split_join) simp_all
  then have named: "i \<in> set (split CHR '','' (getList ?st2 list))"
    by (simp add: st2 addToX_items)
  let ?rest = "remove1 i (storedItems st ?opp)"
  have "count_list (storedItems st ?opp) i \<le> 1"
    using assms(3) count_storedItems [of st ?opp i] by linarith
  then have gone: "i \<notin> set ?rest" by (rule remove1_single)
  have free: "\<forall>w \<in> set ?rest. CHR '','' \<notin> set w"
    using storedItems_sep_free notin_set_remove1 by (metis)
  have "getList ?st2 ?opp = join CHR '','' ?rest"
    using neq by (simp add: st2 addToX_other removeFromX_items)
  moreover have "i \<notin> set (split CHR '','' (join CHR '','' ?rest))"
  proof (cases "?rest = []")
    case True
    then show ?thesis using assms(1) by simp
  next
    case False
    then show ?thesis using gone split_join [OF False free] by simp
  qed
  ultimately show ?thesis using named by simp
qed

text \<open>An instance: \<open>400\<close>, blacklisted once, is moved to the white list.\<close>

theorem add_and_remove_from_opposite_witness:
  "''400'' \<noteq> [] \<and> CHR '','' \<notin> set ''400''
   \<and> count_list (split CHR '','' (getList sampleSettings (oppositeListType WhitelistedIds)))
         ''400'' \<le> 1
   \<and> ''400'' \<in> set (split CHR '',''
         (getList (addToXAndRemoveFromOpposite sampleSettings WhitelistedIds ''400'')
            WhitelistedIds))
   \<and> ''400'' \<notin> set (split CHR '',''
         (getList (addToXAndRemoveFromOpposite sampleSettings WhitelistedIds ''400'')
            (oppositeListType WhitelistedIds)))"
proof -
  have h1: "''400'' \<noteq> []" by simp
  have h2: "CHR '','' \<notin> set ''400''" by simp
  have h3: "count_list (split CHR '','' (getList sampleSettings
              (oppositeListType WhitelistedIds))) ''400'' \<le> 1"
    by (simp add: getList_def oppositeListType_def)
  show ?thesis
    using h1 h2 h3 add_and_remove_from_opposite [OF h1 h2 h3] by blast
qed

text \<open>Without the bound on the occurrences the property fails: let the opposite list hold
  the id twice, a state that
  two calls on empty lists produce: \<open>removeFromX\<close> removes the first occurrence only, and
  the id ends up on both lists.\<close>

theorem add_and_remove_from_opposite_counterexample:
  "addToXAndRemoveFromOpposite
     (addToXAndRemoveFromOpposite
        (sampleSettings\<lparr>whitelistedIds := [], blacklistedIds := []\<rparr>) WhitelistedIds ''5'')
     WhitelistedIds ''5''
   = sampleSettings\<lparr>whitelistedIds := ''5,5'', blacklistedIds := []\<rparr>
   \<and> addToXAndRemoveFromOpposite
       (sampleSettings\<lparr>whitelistedIds := ''5,5'', blacklistedIds := []\<rparr>) BlacklistedIds ''5''
     = sampleSettings\<lparr>whitelistedIds := ''5'', blacklistedIds := ''5''\<rparr>
   \<and> ''5'' \<in> set (split CHR '','' (whitelistedIds
         (addToXAndRemoveFromOpposite
            (sampleSettings\<lparr>whitelistedIds := ''5,5'', blacklistedIds := []\<rparr>)
            BlacklistedIds ''5'')))
   \<and> ''5'' \<in> set (split CHR '','' (blacklistedIds
         (addToXAndRemoveFromOpposite
            (sampleSettings\<lparr>whitelistedIds := ''5,5'', blacklistedIds := []\<rparr>)
            BlacklistedIds ''5'')))"
  by (simp add: addToXAndRemoveFromOpposite_def addToX_def removeFromX_def storedItems_def
      getList_def setList_def oppositeListType_def indexOf_def findIndex_def splice_def Let_def)

section \<open>Properties of the rounding and of the time of an id\<close>

lemma binaryExponent_lower:
  assumes "x \<noteq> 0"
  shows "2 powi (binaryExponent x) \<le> \<bar>x\<bar>"
proof (cases "1 \<le> \<bar>x\<bar>")
  case True
  let ?n = "\<lfloor>\<bar>x\<bar>\<rfloor>"
  have n: "0 < ?n" using True by linarith
  have b: "1 \<le> bitlen ?n" using n bitlen_eq_zero_iff [of ?n] bitlen_nonneg [of ?n] by linarith
  have "(2::int) ^ nat (bitlen ?n - 1) \<le> ?n" using bitlen_bounds [OF n] by simp
  then have "(of_int ((2::int) ^ nat (bitlen ?n - 1)) :: rat) \<le> of_int ?n"
    by (simp only: of_int_le_iff)
  then have "(2::rat) ^ nat (bitlen ?n - 1) \<le> of_int ?n" by simp
  also have "\<dots> \<le> \<bar>x\<bar>" by simp
  finally show ?thesis using True b
    by (simp add: binaryExponent_def power_int_nonneg_exp)
next
  case False
  let ?y = "1 / \<bar>x\<bar>"
  let ?c = "\<lceil>?y\<rceil>"
  let ?k = "bitlen (?c - 1)"
  have x: "0 < \<bar>x\<bar>" "\<bar>x\<bar> < 1" using assms False by auto
  then have y: "1 < ?y" by simp
  then have c: "0 < ?c - 1" by linarith
  have "?c - 1 < 2 ^ nat ?k" using bitlen_bounds [OF c] by simp
  then have "?c \<le> 2 ^ nat ?k" by linarith
  then have "(of_int ?c :: rat) \<le> of_int (2 ^ nat ?k)" by (simp only: of_int_le_iff)
  then have "?y \<le> of_int (2 ^ nat ?k)" using le_of_int_ceiling [of ?y] by linarith
  then have "?y \<le> 2 ^ nat ?k" by simp
  then have "1 \<le> 2 ^ nat ?k * \<bar>x\<bar>" using x(1) by (simp add: pos_divide_le_eq)
  then have "1 / 2 ^ nat ?k \<le> \<bar>x\<bar>"
    by (simp add: pos_divide_le_eq mult.commute)
  moreover have "2 powi (- ?k) = (1::rat) / 2 ^ nat ?k"
    using bitlen_nonneg [of "?c - 1"] by (simp add: power_int_minus_divide power_int_nonneg_exp)
  ultimately show ?thesis using False by (simp add: binaryExponent_def)
qed

lemma binaryExponent_upper:
  assumes "x \<noteq> 0"
  shows "\<bar>x\<bar> < 2 powi (binaryExponent x + 1)"
proof (cases "1 \<le> \<bar>x\<bar>")
  case True
  let ?n = "\<lfloor>\<bar>x\<bar>\<rfloor>"
  have n: "0 < ?n" using True by linarith
  have b: "1 \<le> bitlen ?n" using n bitlen_eq_zero_iff [of ?n] bitlen_nonneg [of ?n] by linarith
  have "?n < 2 ^ nat (bitlen ?n)" using bitlen_bounds [OF n] by simp
  then have "?n + 1 \<le> 2 ^ nat (bitlen ?n)" by linarith
  then have "(of_int (?n + 1) :: rat) \<le> of_int (2 ^ nat (bitlen ?n))"
    by (simp only: of_int_le_iff)
  then have "(of_int ?n :: rat) + 1 \<le> 2 ^ nat (bitlen ?n)" by simp
  moreover have "\<bar>x\<bar> < of_int ?n + 1" by linarith
  ultimately have "\<bar>x\<bar> < 2 ^ nat (bitlen ?n)" by linarith
  then show ?thesis using True b
    by (simp add: binaryExponent_def power_int_nonneg_exp)
next
  case False
  let ?y = "1 / \<bar>x\<bar>"
  let ?c = "\<lceil>?y\<rceil>"
  let ?k = "bitlen (?c - 1)"
  have x: "0 < \<bar>x\<bar>" "\<bar>x\<bar> < 1" using assms False by auto
  then have y: "1 < ?y" by simp
  then have c: "0 < ?c - 1" by linarith
  have k: "1 \<le> ?k" using c bitlen_eq_zero_iff [of "?c - 1"] bitlen_nonneg [of "?c - 1"] by linarith
  have "2 ^ nat (?k - 1) \<le> ?c - 1" using bitlen_bounds [OF c] by simp
  then have "(of_int (2 ^ nat (?k - 1)) :: rat) \<le> of_int (?c - 1)" by (simp only: of_int_le_iff)
  moreover have "of_int (?c - 1) < ?y" by linarith
  ultimately have "2 ^ nat (?k - 1) < ?y" by simp
  then have "2 ^ nat (?k - 1) * \<bar>x\<bar> < 1" using x(1) by (simp add: pos_less_divide_eq)
  then have "\<bar>x\<bar> < 1 / 2 ^ nat (?k - 1)"
    by (simp add: pos_less_divide_eq mult.commute)
  moreover have "2 powi (- ?k + 1) = (1::rat) / 2 ^ nat (?k - 1)"
  proof -
    have "- ?k + 1 = - (?k - 1)" by simp
    then show ?thesis using k
      by (simp only: power_int_minus_divide) (simp add: power_int_nonneg_exp)
  qed
  ultimately show ?thesis using False by (simp add: binaryExponent_def)
qed

lemma binaryExponent_less:
  assumes "x \<noteq> 0" and "\<bar>x\<bar> < 2 powi m"
  shows "binaryExponent x < m"
proof (rule ccontr)
  assume "\<not> binaryExponent x < m"
  then have "m \<le> binaryExponent x" by simp
  then have "(2::rat) powi m \<le> 2 powi (binaryExponent x)"
    by (intro power_int_increasing) simp_all
  then show False using binaryExponent_lower [OF assms(1)] assms(2) by linarith
qed

lemma roundTiesToEven_between:
  assumes "of_int A \<le> y" and "y \<le> of_int B"
  shows "A \<le> roundTiesToEven y \<and> roundTiesToEven y \<le> B"
proof -
  have f: "A \<le> \<lfloor>y\<rfloor>" using assms(1) by (simp add: le_floor_iff)
  have r: "roundTiesToEven y = \<lfloor>y\<rfloor> \<or> roundTiesToEven y = \<lfloor>y\<rfloor> + 1"
    by (simp add: roundTiesToEven_def Let_def)
  show ?thesis
  proof (cases "y = of_int B")
    case True
    then have "roundTiesToEven y = B" by (simp add: roundTiesToEven_def Let_def)
    then show ?thesis using f True by simp
  next
    case False
    then have "y < of_int B" using assms(2) by simp
    then have "\<lfloor>y\<rfloor> < B" by (simp add: floor_less_iff)
    then show ?thesis using f r by linarith
  qed
qed


lemma powi_split:
  assumes "q \<le> j"
  shows "(2::rat) powi j = of_int (2 ^ nat (j - q)) * 2 powi q"
proof -
  have "(2::rat) powi j = 2 powi ((j - q) + q)" by simp
  also have "\<dots> = 2 powi (j - q) * 2 powi q" by (rule power_int_add) simp
  also have "(2::rat) powi (j - q) = 2 ^ nat (j - q)"
    using assms by (simp add: power_int_nonneg_exp)
  finally show ?thesis by simp
qed

lemma roundToDouble_between:
  assumes lo: "of_int A * 2 powi j \<le> x"
    and hi: "x \<le> of_int B * 2 powi j"
    and mag: "\<bar>x\<bar> < 2 powi (j + 53)"
    and sub: "- 1074 \<le> j"
  shows "of_int A * 2 powi j \<le> roundToDouble x \<and> roundToDouble x \<le> of_int B * 2 powi j"
proof (cases "x = 0")
  case True
  then show ?thesis using lo hi by (simp add: roundToDouble_def)
next
  case False
  define q where "q = max (binaryExponent x - 52) (- 1074)"
  define d where "d = (2::int) ^ nat (j - q)"
  define r where "r = roundTiesToEven (x / 2 powi q)"
  have "binaryExponent x < j + 53" using False mag by (rule binaryExponent_less)
  then have qj: "q \<le> j" using sub by (simp add: q_def)
  have pos: "(0::rat) < 2 powi q" by simp
  have j: "(2::rat) powi j = of_int d * 2 powi q"
    unfolding d_def using qj by (rule powi_split)
  have "of_int (A * d) * 2 powi q \<le> x" using lo by (simp add: j mult.assoc)
  then have 1: "of_int (A * d) \<le> x / 2 powi q" using pos by (simp add: pos_le_divide_eq)
  have "x \<le> of_int (B * d) * 2 powi q" using hi by (simp add: j mult.assoc)
  then have 2: "x / 2 powi q \<le> of_int (B * d)" using pos by (simp add: pos_divide_le_eq)
  have "A * d \<le> r \<and> r \<le> B * d"
    unfolding r_def using 1 2 by (rule roundTiesToEven_between)
  then have "(of_int (A * d) :: rat) \<le> of_int r" "(of_int r :: rat) \<le> of_int (B * d)"
    by (simp_all only: of_int_le_iff)
  then have "of_int (A * d) * (2::rat) powi q \<le> of_int r * 2 powi q"
    "of_int r * (2::rat) powi q \<le> of_int (B * d) * 2 powi q"
    using pos by (simp_all only: mult_le_cancel_right_pos)
  moreover have "roundToDouble x = of_int r * 2 powi q"
    using False by (simp add: roundToDouble_def q_def r_def Let_def)
  ultimately show ?thesis by (simp add: j mult.assoc)
qed

lemma roundToDouble_exact:
  assumes "x = of_int m * 2 powi j" and "\<bar>m\<bar> < 2 ^ 53" and "- 1074 \<le> j"
  shows "roundToDouble x = x"
proof -
  have "\<bar>x\<bar> = of_int \<bar>m\<bar> * 2 powi j" by (simp add: assms(1) abs_mult)
  also have "\<dots> < of_int (2 ^ 53) * 2 powi j"
    using assms(2) by (simp only: mult_less_cancel_right_pos zero_less_power_int
        zero_less_numeral of_int_less_iff)
  also have "\<dots> = 2 powi (j + 53)"
    by (simp add: power_int_add)
  finally have "\<bar>x\<bar> < 2 powi (j + 53)" .
  then have "of_int m * 2 powi j \<le> roundToDouble x \<and> roundToDouble x \<le> of_int m * 2 powi j"
    using assms(1,3) by (intro roundToDouble_between) simp_all
  then show ?thesis using assms(1) by simp
qed

lemma toNumber_Fin:
  "- (2 ^ 1024) < roundToDouble x \<Longrightarrow> roundToDouble x < 2 ^ 1024
     \<Longrightarrow> toNumber x = Fin (roundToDouble x)"
  by (simp add: toNumber_def Let_def)

lemma toNumber_int:
  assumes "\<bar>m\<bar> < 2 ^ 53"
  shows "toNumber (of_int m) = Fin (of_int m)"
proof -
  have e: "roundToDouble (of_int m) = of_int m"
    using assms by (intro roundToDouble_exact [where m = m and j = 0]) simp_all
  have "\<bar>of_int m :: rat\<bar> < of_int (2 ^ 53)"
    using assms by (simp only: of_int_abs [symmetric] of_int_less_iff)
  then have "\<bar>of_int m :: rat\<bar> < 2 ^ 1024" by simp
  then show ?thesis by (simp add: toNumber_def e Let_def abs_less_iff)
qed


lemma toNumber_between:
  assumes "of_int A * 2 powi j \<le> x" and "x \<le> of_int B * 2 powi j"
    and "\<bar>x\<bar> < 2 powi (j + 53)" and "- 1074 \<le> j"
    and "- (2 ^ 1024) < of_int A * (2::rat) powi j" and "of_int B * (2::rat) powi j < 2 ^ 1024"
  shows "\<exists>y. toNumber x = Fin y \<and> of_int A * 2 powi j \<le> y \<and> y \<le> of_int B * 2 powi j"
proof -
  have b: "of_int A * 2 powi j \<le> roundToDouble x \<and> roundToDouble x \<le> of_int B * 2 powi j"
    using assms(1-4) by (rule roundToDouble_between)
  then have "- (2 ^ 1024) < roundToDouble x" "roundToDouble x < 2 ^ 1024"
    using assms(5,6) by linarith+
  then have "toNumber x = Fin (roundToDouble x)" by (rule toNumber_Fin)
  then show ?thesis using b by blast
qed

lemma idTime_mathInt:
  "mathInt s = Some n \<Longrightarrow>
     idTime s = numAdd (numDiv (toNumber (of_int n)) (Fin 4194304)) (Fin 1420070400000)"
  by (simp add: idTime_def parseInt_def DISCORD_EPOCH_def)

lemma idTime_between:
  assumes s: "mathInt s = Some n"
    and lo: "A * 4194304 \<le> n" and hi: "n \<le> B * 4194304"
    and A: "0 \<le> A" and B: "B \<le> 2 ^ 42"
  shows "\<exists>t. idTime s = Fin t \<and> of_int A + 1420070400000 \<le> t \<and> t \<le> of_int B + 1420070400000"
proof -
  have AB: "A \<le> B" using lo hi by linarith
  have ratA: "(0::rat) \<le> of_int A" using A by simp
  have "(of_int B :: rat) \<le> of_int (2 ^ 42)" using B by (simp only: of_int_le_iff)
  then have ratB: "(of_int B :: rat) \<le> 4398046511104" by simp
  have "(of_int (A * 4194304) :: rat) \<le> of_int n" "(of_int n :: rat) \<le> of_int (B * 4194304)"
    using lo hi by (simp_all only: of_int_le_iff)
  then have n: "of_int A * 4194304 \<le> (of_int n :: rat)" "(of_int n :: rat) \<le> of_int B * 4194304"
    by simp_all
  have p22: "(2::rat) powi 22 = 4194304" by simp
  have "\<exists>y. toNumber (of_int n) = Fin y \<and> of_int A * 2 powi 22 \<le> y \<and> y \<le> of_int B * 2 powi 22"
    using n ratA ratB by (intro toNumber_between) (simp_all add: abs_less_iff)
  then obtain y1 where y1: "toNumber (of_int n) = Fin y1"
    "of_int A * 4194304 \<le> y1" "y1 \<le> of_int B * 4194304"
    by (auto simp: p22)
  have "\<exists>y. toNumber (y1 / 4194304) = Fin y \<and> of_int A * 2 powi 0 \<le> y \<and> y \<le> of_int B * 2 powi 0"
    using y1(2,3) ratA ratB by (intro toNumber_between) (simp_all add: abs_less_iff)
  then obtain y2 where y2: "toNumber (y1 / 4194304) = Fin y2" "of_int A \<le> y2" "y2 \<le> of_int B"
    by auto
  have "\<exists>y. toNumber (y2 + 1420070400000) = Fin y
          \<and> of_int (A + 1420070400000) * 2 powi 0 \<le> y \<and> y \<le> of_int (B + 1420070400000) * 2 powi 0"
    using y2(2,3) ratA ratB by (intro toNumber_between) (simp_all add: abs_less_iff)
  then obtain t where t: "toNumber (y2 + 1420070400000) = Fin t"
    "of_int A + 1420070400000 \<le> t" "t \<le> of_int B + 1420070400000"
    by auto
  have "idTime s = Fin t"
    by (simp add: idTime_mathInt [OF s] y1(1) y2(1) t(1))
  then show ?thesis using t(2,3) by blast
qed


lemma toNumber_exact:
  assumes "x = of_int m * 2 powi j" and "\<bar>x\<bar> < 2 powi (j + 53)" and "- 1074 \<le> j"
    and "\<bar>x\<bar> < 2 ^ 1024"
  shows "toNumber x = Fin x"
proof -
  have "\<exists>y. toNumber x = Fin y \<and> of_int m * 2 powi j \<le> y \<and> y \<le> of_int m * 2 powi j"
    using assms by (intro toNumber_between) (simp_all add: abs_less_iff)
  then show ?thesis using assms(1) by auto
qed

lemma idTime_exact:
  assumes s: "mathInt s = Some n" and n: "0 \<le> n" "n < 2 ^ 53" and d: "1024 dvd n"
  shows "idTime s = Fin (of_int n / 4194304 + 1420070400000)"
proof -
  obtain m where m: "n = 1024 * m" using d by (auto elim: dvdE)
  have mb: "0 \<le> m" "m < 2 ^ 43" using n m by simp_all
  have "(of_int n :: rat) < of_int (2 ^ 53)" "(0::rat) \<le> of_int n"
    using n by (simp_all only: of_int_less_iff of_int_0_le_iff)
  then have rn: "(of_int n :: rat) < 9007199254740992" "(0::rat) \<le> of_int n" by simp_all
  have "(of_int m :: rat) < of_int (2 ^ 43)" "(0::rat) \<le> of_int m"
    using mb by (simp_all only: of_int_less_iff of_int_0_le_iff)
  then have rm: "(of_int m :: rat) < 8796093022208" "(0::rat) \<le> of_int m" by simp_all
  have 1: "toNumber (of_int n) = Fin (of_int n)"
    using n by (intro toNumber_int) simp
  have 2: "toNumber (of_int n / 4194304) = Fin (of_int n / 4194304)"
    using rn by (intro toNumber_exact [where m = n and j = "- 22"]) simp_all
  have 3: "toNumber (of_int n / 4194304 + 1420070400000)
             = Fin (of_int n / 4194304 + 1420070400000)"
    using rm
    by (intro toNumber_exact [where m = "m + 5816608358400000" and j = "- 12"])
      (simp_all add: m)
  show ?thesis by (simp add: idTime_mathInt [OF s] 1 2 3)
qed


text \<open>
  \<^bold>\<open>C5\<close> (time of an id), as amended. The source computes
  \<^verbatim>\<open>parseInt(id) / 4194304 + DISCORD_EPOCH\<close> in floating point and takes no floor. For
  every id whose digits denote \<open>n\<close> with \<open>0 \<le> n < 2\<^sup>6\<^sup>4\<close> the time is finite and lies
  between \<open>\<lfloor>n / 4194304\<rfloor> + 1420070400000\<close> and that value plus one; it equals
  \<open>\<lfloor>n / 4194304\<rfloor> + 1420070400000\<close> when \<open>n\<close> is a multiple of \<open>4194304\<close>; and for a multiple
  of \<open>1024\<close> below \<open>2\<^sup>5\<^sup>3\<close> it is the unfloored quotient plus the epoch, exactly.
\<close>

theorem snowflake_time:
  assumes s: "mathInt s = Some n" and n: "0 \<le> n" "n < 2 ^ 64"
  shows "\<exists>t. idTime s = Fin t
           \<and> of_int (n div 4194304) + 1420070400000 \<le> t
           \<and> t \<le> of_int (n div 4194304) + 1420070400001
           \<and> (4194304 dvd n \<longrightarrow> t = of_int (n div 4194304) + 1420070400000)
           \<and> (n < 2 ^ 53 \<and> 1024 dvd n \<longrightarrow> t = of_int n / 4194304 + 1420070400000)"
proof -
  let ?k = "n div 4194304"
  have k: "0 \<le> ?k" "?k + 1 \<le> 2 ^ 42" using n by simp_all
  have lo: "?k * 4194304 \<le> n" by simp
  have "n mod 4194304 < 4194304" by simp
  moreover have "n = ?k * 4194304 + n mod 4194304" by simp
  ultimately have "n \<le> ?k * 4194304 + 4194304" by linarith
  then have hi: "n \<le> (?k + 1) * 4194304" by (simp add: distrib_right)
  obtain t where t: "idTime s = Fin t" "of_int ?k + 1420070400000 \<le> t"
    "t \<le> of_int (?k + 1) + 1420070400000"
    using idTime_between [OF s lo hi k] by blast
  have a: "t = of_int ?k + 1420070400000" if "4194304 dvd n"
  proof -
    have "n \<le> ?k * 4194304" using that by simp
    moreover have "?k \<le> 2 ^ 42" using k(2) by linarith
    ultimately obtain t' where "idTime s = Fin t'" "t' \<le> of_int ?k + 1420070400000"
      using idTime_between [OF s lo _ k(1)] by blast
    then show ?thesis using t(1,2) by simp
  qed
  have b: "t = of_int n / 4194304 + 1420070400000" if "n < 2 ^ 53 \<and> 1024 dvd n"
    using idTime_exact [OF s n(1)] that t(1) by simp
  show ?thesis using t a b by auto
qed


text \<open>Two instances: a present-day id, which is no multiple of \<open>4194304\<close>, and the id
  \<open>4194304\<close> itself.\<close>

theorem snowflake_time_witness:
  "mathInt ''175928847299117063'' = Some 175928847299117063
   \<and> (0::int) \<le> 175928847299117063 \<and> (175928847299117063::int) < 2 ^ 64
   \<and> (\<exists>t. idTime ''175928847299117063'' = Fin t \<and> 1462015105796 \<le> t \<and> t \<le> 1462015105797)
   \<and> mathInt ''4194304'' = Some 4194304
   \<and> idTime ''4194304'' = Fin 1420070400001"
proof -
  have m1: "mathInt ''175928847299117063'' = Some 175928847299117063" by code_simp
  have m2: "mathInt ''4194304'' = Some 4194304" by code_simp
  have 1: "\<exists>t. idTime ''175928847299117063'' = Fin t \<and> 1462015105796 \<le> t \<and> t \<le> 1462015105797"
    using snowflake_time [OF m1] by auto
  have 2: "idTime ''4194304'' = Fin 1420070400001"
    using snowflake_time [OF m2] by auto
  show ?thesis using m1 m2 1 2 by simp
qed


text \<open>With a floor the equation fails at the id \<open>2097152\<close>: its time is
  \<open>1420070400000.5\<close>, every step being exact in binary64, and not
  \<open>\<lfloor>2097152 / 4194304\<rfloor> + 1420070400000 = 1420070400000\<close>.\<close>

theorem snowflake_time_counterexample:
  "mathInt ''2097152'' = Some 2097152
   \<and> idTime ''2097152'' = Fin (1420070400000 + 1 / 2)
   \<and> idTime ''2097152'' \<noteq> Fin (of_int (2097152 div 4194304) + 1420070400000)"
proof -
  have m: "mathInt ''2097152'' = Some 2097152"
    by code_simp
  have "idTime ''2097152'' = Fin (of_int 2097152 / 4194304 + 1420070400000)"
    using m by (intro idTime_exact) simp_all
  then show ?thesis using m by simp
qed

section \<open>Properties of the reconciler\<close>

lemma set_insertBy: "set (insertBy cmp x xs) = insert x (set xs)"
  by (induction xs) auto

lemma set_arraySort: "set (arraySort cmp xs) = set xs"
  by (induction xs) (simp_all add: arraySort_def set_insertBy)

lemma set_savedIDs:
  "set (savedIDs loggedMessages deleted) = toId ` {d \<in> set deleted. loggedMessages d \<noteq> None}"
  by (auto simp: savedIDs_def set_arraySort)

lemma findLastIndex_none: "(findLastIndex xs p = - 1) = (\<forall>x \<in> set xs. \<not> p x)"
proof (cases "findIndex p (rev xs) = - 1")
  case True
  then show ?thesis by (simp add: findLastIndex_def findIndex_none)
next
  case False
  then have "findIndex p (rev xs) < int (length (rev xs))"
    using findIndex_range [of p "rev xs"] by blast
  then have "findLastIndex xs p \<noteq> - 1" using False by (simp add: findLastIndex_def Let_def)
  moreover have "\<not> (\<forall>x \<in> set xs. \<not> p x)" using False by (simp add: findIndex_none)
  ultimately show ?thesis by simp
qed

lemma set_slice: "set (slice xs a b) \<subseteq> set xs"
  by (auto simp: slice_def Let_def dest: in_set_takeD in_set_dropD)

lemma set_splice_insert: "set (splice i 0 [m] xs) = insert m (set xs)"
proof -
  have "set (take k xs) \<union> set (drop k xs) = set xs" for k
    by (metis append_take_drop_id set_append)
  then show ?thesis by (auto simp: splice_def Let_def)
qed

lemma distinct_splice_insert:
  assumes "distinct (map f xs)" and "f m \<notin> f ` set xs"
  shows "distinct (map f (splice i 0 [m] xs))"
proof -
  define k where "k = nat (if i < 0 then max (int (length xs) + i) 0 else min i (int (length xs)))"
  have xs: "xs = take k xs @ drop k xs" by simp
  have "distinct (map f (take k xs @ drop k xs))" using assms(1) by simp
  then have d: "distinct (map f (take k xs))" "distinct (map f (drop k xs))"
    "f ` set (take k xs) \<inter> f ` set (drop k xs) = {}"
    by (simp_all only: map_append distinct_append set_map) 
  have "f m \<notin> f ` set (take k xs)" "f m \<notin> f ` set (drop k xs)"
    using assms(2) by (auto dest: in_set_takeD in_set_dropD)
  then have "distinct (map f (take k xs @ [m] @ drop k xs))"
    using d by auto
  then show ?thesis by (simp add: splice_def Let_def k_def)
qed

lemma present_iff: "(findIndex (\<lambda>m. msg_id m = i) ms \<noteq> - 1) = (i \<in> msg_id ` set ms)"
  by (auto simp: findIndex_none)

lemma reAddLoop_distinct:
  assumes keyed: "\<And>k r m. lm k = Some r \<Longrightarrow> message r = Some m \<Longrightarrow> msg_id m = k"
  shows "distinct (map msg_id ms) \<Longrightarrow>
         (\<forall>e \<in> set es. ident e \<in> msg_id ` set ms \<or> lm (ident e) \<noteq> None) \<Longrightarrow>
         \<exists>ms'. reAddLoop lm es i ms = Inr ms' \<and> distinct (map msg_id ms') \<and> set ms \<subseteq> set ms'"
proof (induction es arbitrary: i ms)
  case Nil
  then show ?case by simp
next
  case (Cons e es)
  show ?case
  proof (cases "ident e \<in> msg_id ` set ms")
    case True
    then have "reAddLoop lm (e # es) i ms = reAddLoop lm es (i + 1) ms"
      by (simp add: present_iff)
    then show ?thesis using Cons.IH [of ms "i + 1"] Cons.prems by simp
  next
    case False
    then obtain r where r: "lm (ident e) = Some r" using Cons.prems(2) by auto
    show ?thesis
    proof (cases "message r")
      case None
      then have "reAddLoop lm (e # es) i ms = reAddLoop lm es (i + 1) ms"
        using False r by (simp add: present_iff)
      then show ?thesis using Cons.IH [of ms "i + 1"] Cons.prems by simp
    next
      case (Some m)
      let ?ms = "splice i 0 [m] ms"
      have id: "msg_id m = ident e" using r Some by (rule keyed)
      have step: "reAddLoop lm (e # es) i ms = reAddLoop lm es (i + 1) ?ms"
        using False r Some by (simp add: present_iff)
      have d: "distinct (map msg_id ?ms)"
        using Cons.prems(1) False id by (intro distinct_splice_insert) simp_all
      have s: "set ?ms = insert m (set ms)" by (rule set_splice_insert)
      have "\<forall>e' \<in> set es. ident e' \<in> msg_id ` set ?ms \<or> lm (ident e') \<noteq> None"
        using Cons.prems(2) s by auto
      then obtain ms' where "reAddLoop lm es (i + 1) ?ms = Inr ms'"
        "distinct (map msg_id ms')" "set ?ms \<subseteq> set ms'"
        using Cons.IH [OF d] by blast
      then show ?thesis using step s by auto
    qed
  qed
qed

lemma savedIDs_Nil:
  "(savedIDs lm deleted = []) = (\<forall>d \<in> set deleted. lm d = None)"
proof -
  have "(savedIDs lm deleted = []) = (set (savedIDs lm deleted) = {})" by simp
  also have "\<dots> = ({d \<in> set deleted. lm d \<noteq> None} = {})"
    by (simp only: set_savedIDs image_is_empty)
  also have "\<dots> = (\<forall>d \<in> set deleted. lm d = None)" by auto
  finally show ?thesis .
qed

lemma reAddDeletedMessages_cases:
  "reAddDeletedMessages lm ms dm cs ce = Inr ms
   \<or> (\<exists>deleted es. dm = Some deleted
         \<and> reAddDeletedMessages lm ms dm cs ce = reAddLoop lm es 0 ms
         \<and> set es \<subseteq> set (savedIDs lm deleted) \<union> set (liveIDs ms))"
proof (cases dm)
  case None
  then show ?thesis by (simp add: reAddDeletedMessages_def)
next
  case (Some deleted)
  let ?saved = "savedIDs lm deleted"
  let ?lo = "if ce then 0
             else findIndex (\<lambda>e. numGreater (time e) (time (last (liveIDs ms)))) ?saved"
  let ?hi = "if cs then int (length ?saved) - 1
             else findLastIndex ?saved (\<lambda>e. numLess (time e) (time (hd (liveIDs ms))))"
  let ?es = "arraySort (\<lambda>a b. numSub (time b) (time a))
               (slice ?saved ?lo (?hi + 1) @ liveIDs ms)"
  have sub: "set ?es \<subseteq> set ?saved \<union> set (liveIDs ms)"
    using set_slice [of ?saved ?lo "?hi + 1"] by (auto simp only: set_arraySort set_append)
  have "reAddDeletedMessages lm ms dm cs ce = Inr ms
        \<or> reAddDeletedMessages lm ms dm cs ce = reAddLoop lm ?es 0 ms"
    by (simp add: reAddDeletedMessages_def Some Let_def)
  then show ?thesis using sub Some by blast
qed

lemma numSub_int:
  assumes "\<bar>a - b\<bar> < 2 ^ 53"
  shows "numSub (Fin (of_int a)) (Fin (of_int b)) = Fin (of_int (a - b))"
  using toNumber_int [OF assms] by (simp add: numSub_def)

lemma cmp_int:
  assumes "\<bar>a - b\<bar> < 2 ^ 53"
  shows "numGreater (numSub (Fin (of_int a)) (Fin (of_int b))) (Fin 0) = (b < a)"
  by (simp only: numSub_int [OF assms] numGreater_def numLess.simps) simp


lemma idTime_multiple:
  assumes s: "mathInt s = Some (k * 4194304)" and k: "\<bar>k\<bar> < 2 ^ 52"
  shows "idTime s = Fin (of_int (k + 1420070400000))"
proof -
  have "\<bar>of_int k :: rat\<bar> < of_int (2 ^ 52)"
    using k by (simp only: of_int_abs [symmetric] of_int_less_iff)
  then have rk: "\<bar>of_int k :: rat\<bar> < 4503599627370496" by simp
  have 1: "toNumber (of_int (k * 4194304)) = Fin (of_int (k * 4194304))"
    using rk by (intro toNumber_exact [where m = k and j = 22]) (simp_all add: abs_mult)
  have 2: "toNumber (of_int k) = Fin (of_int k)"
    using k by (intro toNumber_int) simp
  have 3: "toNumber (of_int (k + 1420070400000)) = Fin (of_int (k + 1420070400000))"
    using k by (intro toNumber_int) simp
  show ?thesis using 1 2 3 by (simp add: idTime_mathInt [OF s])
qed

lemma sample_times:
  "idTime ''-5956206957743308800'' = Fin (of_int 300)"
  "idTime ''-5956206957953024000'' = Fin (of_int 250)"
  "idTime ''-5956206958162739200'' = Fin (of_int 200)"
  "idTime ''1258291200'' = Fin (of_int 1420070400300)"
  "idTime ''1048576000'' = Fin (of_int 1420070400250)"
  "idTime ''838860800'' = Fin (of_int 1420070400200)"
proof -
  have "mathInt ''-5956206957743308800'' = Some (- 1420070399700 * 4194304)" by code_simp
  then show "idTime ''-5956206957743308800'' = Fin (of_int 300)"
    using idTime_multiple [of _ "- 1420070399700"] by simp
  have "mathInt ''-5956206957953024000'' = Some (- 1420070399750 * 4194304)" by code_simp
  then show "idTime ''-5956206957953024000'' = Fin (of_int 250)"
    using idTime_multiple [of _ "- 1420070399750"] by simp
  have "mathInt ''-5956206958162739200'' = Some (- 1420070399800 * 4194304)" by code_simp
  then show "idTime ''-5956206958162739200'' = Fin (of_int 200)"
    using idTime_multiple [of _ "- 1420070399800"] by simp
  have "mathInt ''1258291200'' = Some (300 * 4194304)" by code_simp
  then show "idTime ''1258291200'' = Fin (of_int 1420070400300)"
    using idTime_multiple [of _ 300] by simp
  have "mathInt ''1048576000'' = Some (250 * 4194304)" by code_simp
  then show "idTime ''1048576000'' = Fin (of_int 1420070400250)"
    using idTime_multiple [of _ 250] by simp
  have "mathInt ''838860800'' = Some (200 * 4194304)" by code_simp
  then show "idTime ''838860800'' = Fin (of_int 1420070400200)"
    using idTime_multiple [of _ 200] by simp
qed

lemma sample_half_times:
  "idTime ''2097152'' = Fin (1420070400000 + 1 / 2)"
  "idTime ''4194304'' = Fin 1420070400001"
  "idTime ''12582912'' = Fin 1420070400003"
  "idTime ''14680064'' = Fin (1420070400003 + 1 / 2)"
proof -
  have "mathInt ''2097152'' = Some 2097152" by code_simp
  then show "idTime ''2097152'' = Fin (1420070400000 + 1 / 2)"
    using idTime_exact [of "''2097152''" 2097152] by simp
  have "mathInt ''4194304'' = Some 4194304" by code_simp
  then show "idTime ''4194304'' = Fin 1420070400001"
    using idTime_exact [of "''4194304''" 4194304] by simp
  have "mathInt ''12582912'' = Some 12582912" by code_simp
  then show "idTime ''12582912'' = Fin 1420070400003"
    using idTime_exact [of "''12582912''" 12582912] by simp
  have "mathInt ''14680064'' = Some 14680064" by code_simp
  then show "idTime ''14680064'' = Fin (1420070400003 + 1 / 2)"
    using idTime_exact [of "''14680064''" 14680064] by simp
qed


text \<open>
  \<^bold>\<open>C8\<close> (no duplicate insertion). Let every entry of the store be keyed by the id of the
  message it caches, which is how the data model describes a logged record. If no id
  occurs twice in \<open>messages\<close> before the call, then the call returns normally, no id
  occurs twice afterwards, and every live message is still there; so a deleted id that is
  already present is not inserted again. This holds for every list of deleted ids, also
  one with repetitions, and for both flags.
\<close>

theorem no_duplicate_insertion:
  assumes "distinct (map msg_id messages)"
    and "\<forall>k r m. loggedMessages k = Some r \<longrightarrow> message r = Some m \<longrightarrow> msg_id m = k"
  shows "\<exists>ms. reAddDeletedMessages loggedMessages messages deletedMessages channelStart channelEnd
                = Inr ms
              \<and> distinct (map msg_id ms) \<and> set messages \<subseteq> set ms"
proof -
  let ?R = "reAddDeletedMessages loggedMessages messages deletedMessages channelStart channelEnd"
  consider "?R = Inr messages"
    | deleted es where "?R = reAddLoop loggedMessages es 0 messages"
        "set es \<subseteq> set (savedIDs loggedMessages deleted) \<union> set (liveIDs messages)"
    using reAddDeletedMessages_cases
      [of loggedMessages messages deletedMessages channelStart channelEnd]
    by blast
  then show ?thesis
  proof cases
    case 1
    then show ?thesis using assms(1) by simp
  next
    case 2
    have "\<forall>e \<in> set es. ident e \<in> msg_id ` set messages \<or> loggedMessages (ident e) \<noteq> None"
      using 2(2) by (auto simp: set_savedIDs liveIDs_def toId_def)
    then show ?thesis
      using reAddLoop_distinct [of loggedMessages messages es 0] assms 2(1) by simp
  qed
qed

text \<open>An instance: the deleted id \<open>12582912\<close> is also a live message.\<close>

theorem no_duplicate_insertion_witness:
  "distinct (map msg_id [sampleMessage ''12582912'', sampleMessage ''4194304''])
   \<and> sampleLogged [''8388608'', ''12582912''] ''12582912''
       = Some \<lparr>message = Some (sampleMessage ''12582912'')\<rparr>
   \<and> (\<exists>ms. reAddDeletedMessages (sampleLogged [''8388608'', ''12582912''])
              [sampleMessage ''12582912'', sampleMessage ''4194304'']
              (Some [''8388608'', ''12582912'']) True True = Inr ms
           \<and> distinct (map msg_id ms)
           \<and> set [sampleMessage ''12582912'', sampleMessage ''4194304''] \<subseteq> set ms)"
proof -
  have d: "distinct (map msg_id [sampleMessage ''12582912'', sampleMessage ''4194304''])"
    by simp
  have k: "\<forall>k r m. sampleLogged [''8388608'', ''12582912''] k = Some r \<longrightarrow> message r = Some m
             \<longrightarrow> msg_id m = k"
    by auto
  have s: "sampleLogged [''8388608'', ''12582912''] ''12582912''
             = Some \<lparr>message = Some (sampleMessage ''12582912'')\<rparr>"
    by simp
  show ?thesis
    using d s no_duplicate_insertion [OF d k, of "Some [''8388608'', ''12582912'']" True True]
    by blast
qed


text \<open>
  \<^bold>\<open>C9\<close> (early returns leave the list alone). The call returns \<open>messages\<close> unchanged
  when \<open>deletedMessages\<close> is absent or empty, when \<open>messages\<close> is empty, when no deleted id
  has an entry in the store, when \<open>channelEnd\<close> is unset and no deleted id with an entry has
  a time above that of the last live message, and when \<open>channelStart\<close> is unset and no
  deleted id with an entry has a time below that of the first live message.
\<close>

theorem early_return_unmodified:
  assumes "deletedMessages = None
     \<or> deletedMessages = Some deleted
        \<and> (messages = [] \<or> deleted = []
           \<or> (\<forall>d \<in> set deleted. loggedMessages d = None)
           \<or> (\<not> channelEnd
               \<and> (\<forall>d \<in> set deleted. loggedMessages d \<noteq> None \<longrightarrow>
                     \<not> numGreater (idTime d) (idTime (msg_id (last messages)))))
           \<or> (\<not> channelStart
               \<and> (\<forall>d \<in> set deleted. loggedMessages d \<noteq> None \<longrightarrow>
                     \<not> numLess (idTime d) (idTime (msg_id (hd messages))))))"
  shows "reAddDeletedMessages loggedMessages messages deletedMessages channelStart channelEnd
           = Inr messages"
proof (cases deletedMessages)
  case None
  then show ?thesis by (simp add: reAddDeletedMessages_def)
next
  case (Some ds)
  then have ds: "deletedMessages = Some deleted" using assms by simp
  let ?saved = "savedIDs loggedMessages deleted"
  let ?R = "reAddDeletedMessages loggedMessages messages (Some deleted) channelStart channelEnd"
  have low: "(findIndex (\<lambda>e. numGreater (time e) t) ?saved = - 1)
       = (\<forall>d \<in> set deleted. loggedMessages d \<noteq> None \<longrightarrow> \<not> numGreater (idTime d) t)" for t
    by (auto simp: findIndex_none set_savedIDs toId_def)
  have high: "(findLastIndex ?saved (\<lambda>e. numLess (time e) t) = - 1)
       = (\<forall>d \<in> set deleted. loggedMessages d \<noteq> None \<longrightarrow> \<not> numLess (idTime d) t)" for t
    by (auto simp: findLastIndex_none set_savedIDs toId_def)
  have "?R = Inr messages"
  proof (cases "messages = [] \<or> deleted = [] \<or> ?saved = []")
    case True
    then show ?thesis by (auto simp: reAddDeletedMessages_def Let_def)
  next
    case False
    then have m: "messages \<noteq> []" "deleted \<noteq> []" "?saved \<noteq> []" by simp_all
    have lt: "time (last (liveIDs messages)) = idTime (msg_id (last messages))"
      using m(1) by (simp add: liveIDs_def last_map toId_def)
    have ht: "time (hd (liveIDs messages)) = idTime (msg_id (hd messages))"
      using m(1) by (simp add: liveIDs_def hd_map toId_def)
    have "\<not> (\<forall>d \<in> set deleted. loggedMessages d = None)"
      using m(3) savedIDs_Nil [of loggedMessages deleted] by blast
    then consider
        "\<not> channelEnd"
        "findIndex (\<lambda>e. numGreater (time e) (time (last (liveIDs messages)))) ?saved = - 1"
      | "\<not> channelStart"
        "findLastIndex ?saved (\<lambda>e. numLess (time e) (time (hd (liveIDs messages)))) = - 1"
      using assms ds m(1,2) unfolding low high lt ht by blast
    then show ?thesis
    proof cases
      case 1
      then show ?thesis using m by (simp add: reAddDeletedMessages_def Let_def)
    next
      case 2
      then show ?thesis using m by (simp add: reAddDeletedMessages_def Let_def)
    qed
  qed
  then show ?thesis using ds by simp
qed

text \<open>Instances of the five paths: a deleted message older than the page, one newer than
  the page, a deleted id without an entry, an empty page, and an absent list of deleted
  ids.\<close>

theorem early_return_unmodified_witness:
  "\<not> numGreater (idTime ''2097152'') (idTime (msg_id (last [sampleMessage ''12582912'', sampleMessage ''4194304''])))
   \<and> reAddDeletedMessages (sampleLogged [''2097152''])
       [sampleMessage ''12582912'', sampleMessage ''4194304''] (Some [''2097152'']) True False
     = Inr [sampleMessage ''12582912'', sampleMessage ''4194304'']
   \<and> \<not> numLess (idTime ''14680064'') (idTime (msg_id (hd [sampleMessage ''12582912'', sampleMessage ''4194304''])))
   \<and> reAddDeletedMessages (sampleLogged [''14680064''])
       [sampleMessage ''12582912'', sampleMessage ''4194304''] (Some [''14680064'']) False True
     = Inr [sampleMessage ''12582912'', sampleMessage ''4194304'']
   \<and> reAddDeletedMessages (sampleLogged [])
       [sampleMessage ''12582912'', sampleMessage ''4194304''] (Some [''14680064'']) True True
     = Inr [sampleMessage ''12582912'', sampleMessage ''4194304'']
   \<and> reAddDeletedMessages (sampleLogged [''14680064'']) [] (Some [''14680064'']) True True
     = Inr []
   \<and> reAddDeletedMessages (sampleLogged [''14680064''])
       [sampleMessage ''12582912'', sampleMessage ''4194304''] None True True
     = Inr [sampleMessage ''12582912'', sampleMessage ''4194304'']"
proof -
  let ?ms = "[sampleMessage ''12582912'', sampleMessage ''4194304'']"
  have lo: "\<not> numGreater (idTime ''2097152'') (idTime (msg_id (last ?ms)))"
    by (simp add: sample_half_times numGreater_def)
  have hi: "\<not> numLess (idTime ''14680064'') (idTime (msg_id (hd ?ms)))"
    by (simp add: sample_half_times)
  have 1: "reAddDeletedMessages (sampleLogged [''2097152'']) ?ms (Some [''2097152'']) True False
             = Inr ?ms"
    using lo by (intro early_return_unmodified [where deleted = "[''2097152'']"]) simp
  have 2: "reAddDeletedMessages (sampleLogged [''14680064'']) ?ms (Some [''14680064'']) False True
             = Inr ?ms"
    using hi by (intro early_return_unmodified [where deleted = "[''14680064'']"]) simp
  have 3: "reAddDeletedMessages (sampleLogged []) ?ms (Some [''14680064'']) True True = Inr ?ms"
    by (intro early_return_unmodified [where deleted = "[''14680064'']"]) simp
  have 4: "reAddDeletedMessages (sampleLogged [''14680064'']) [] (Some [''14680064'']) True True
             = Inr []"
    by (intro early_return_unmodified [where deleted = "[''14680064'']"]) simp
  have 5: "reAddDeletedMessages (sampleLogged [''14680064'']) ?ms None True True = Inr ?ms"
    by (intro early_return_unmodified [where deleted = "[]"]) simp
  show ?thesis using lo hi 1 2 3 4 5 by blast
qed

text \<open>
  \<^bold>\<open>C7\<close> (ordering). Two live messages \<open>a\<close>, \<open>b\<close> (newest first) and one deleted id \<open>d\<close>
  whose entry caches the message \<open>m\<close>, with integral times \<open>ta > td > tb\<close>, both flags
  unset: the call returns \<open>[a, m, b]\<close>, whose times are \<open>[ta, td, tb]\<close>. The specification's scenario
  is the case \<open>ta = 300\<close>, \<open>td = 250\<close>, \<open>tb = 200\<close>.
\<close>

theorem reconciler_ordering:
  assumes ta: "idTime (msg_id a) = Fin (of_int ta)"
    and tb: "idTime (msg_id b) = Fin (of_int tb)"
    and td: "idTime d = Fin (of_int td)"
    and order: "tb < td" "td < ta" "ta - tb < 2 ^ 53"
    and stored: "loggedMessages d = Some r" "message r = Some m" "msg_id m = d"
  shows "reAddDeletedMessages loggedMessages [a, b] (Some [d]) False False = Inr [a, m, b]
         \<and> map (\<lambda>x. idTime (msg_id x)) [a, m, b]
             = [Fin (of_int ta), Fin (of_int td), Fin (of_int tb)]"
proof -
  have neq: "msg_id a \<noteq> d" "msg_id b \<noteq> d"
    using ta tb td order by auto
  have c1: "numGreater (numSub (Fin (of_int tb)) (Fin (of_int ta))) (Fin 0) = False"
    using order by (subst cmp_int) simp_all
  have c2: "numGreater (numSub (Fin (of_int ta)) (Fin (of_int td))) (Fin 0) = True"
    using order by (subst cmp_int) simp_all
  have c3: "numGreater (numSub (Fin (of_int tb)) (Fin (of_int td))) (Fin 0) = False"
    using order by (subst cmp_int) simp_all
  let ?A = "\<lparr>ident = msg_id a, time = Fin (of_int ta)\<rparr>"
  let ?B = "\<lparr>ident = msg_id b, time = Fin (of_int tb)\<rparr>"
  let ?D = "\<lparr>ident = d, time = Fin (of_int td)\<rparr>"
  have saved: "savedIDs loggedMessages [d] = [?D]"
    using stored(1) by (simp add: savedIDs_def arraySort_def toId_def td)
  have live: "liveIDs [a, b] = [?A, ?B]"
    by (simp add: liveIDs_def toId_def ta tb)
  have lo: "findIndex (\<lambda>e. numGreater (time e) (Fin (of_int tb))) [?D] = 0"
    using order by (simp add: findIndex_def numGreater_def)
  have hi: "findLastIndex [?D] (\<lambda>e. numLess (time e) (Fin (of_int ta))) = 0"
    using order by (simp add: findLastIndex_def findIndex_def)
  have sl: "slice [?D] 0 (0 + 1) = [?D]"
    by (simp add: slice_def)
  have sorted: "arraySort (\<lambda>x y. numSub (time y) (time x)) ([?D] @ [?A, ?B]) = [?A, ?D, ?B]"
    by (simp add: arraySort_def c1 c2 c3)
  have loop: "reAddLoop loggedMessages [?A, ?D, ?B] 0 [a, b] = Inr [a, m, b]"
    using neq stored by (simp add: findIndex_def splice_def)
  have "reAddDeletedMessages loggedMessages [a, b] (Some [d]) False False
          = reAddLoop loggedMessages
              (arraySort (\<lambda>x y. numSub (time y) (time x)) (slice [?D] 0 (0 + 1) @ [?A, ?B]))
              0 [a, b]"
    by (simp add: reAddDeletedMessages_def Let_def saved live lo hi)
  then have "reAddDeletedMessages loggedMessages [a, b] (Some [d]) False False = Inr [a, m, b]"
    by (simp only: sl sorted loop)
  then show ?thesis using ta tb td stored(3) by simp
qed

text \<open>Two instances: ids whose times are exactly \<open>300\<close>, \<open>250\<close> and \<open>200\<close> (they are
  negative, times of non-negative ids starting at the epoch), and the ids
  \<open>300 * 4194304\<close>, \<open>250 * 4194304\<close>, \<open>200 * 4194304\<close>.\<close>

theorem reconciler_ordering_witness:
  "reAddDeletedMessages (sampleLogged [''-5956206957953024000''])
     [sampleMessage ''-5956206957743308800'', sampleMessage ''-5956206958162739200'']
     (Some [''-5956206957953024000'']) False False
   = Inr [sampleMessage ''-5956206957743308800'', sampleMessage ''-5956206957953024000'',
          sampleMessage ''-5956206958162739200'']
   \<and> map (\<lambda>x. idTime (msg_id x))
       [sampleMessage ''-5956206957743308800'', sampleMessage ''-5956206957953024000'',
        sampleMessage ''-5956206958162739200'']
     = [Fin 300, Fin 250, Fin 200]
   \<and> reAddDeletedMessages (sampleLogged [''1048576000''])
       [sampleMessage ''1258291200'', sampleMessage ''838860800'']
       (Some [''1048576000'']) False False
     = Inr [sampleMessage ''1258291200'', sampleMessage ''1048576000'',
            sampleMessage ''838860800'']"
proof -
  have 1: "reAddDeletedMessages (sampleLogged [''-5956206957953024000''])
     [sampleMessage ''-5956206957743308800'', sampleMessage ''-5956206958162739200'']
     (Some [''-5956206957953024000'']) False False
   = Inr [sampleMessage ''-5956206957743308800'', sampleMessage ''-5956206957953024000'',
          sampleMessage ''-5956206958162739200'']
   \<and> map (\<lambda>x. idTime (msg_id x))
       [sampleMessage ''-5956206957743308800'', sampleMessage ''-5956206957953024000'',
        sampleMessage ''-5956206958162739200'']
     = [Fin (of_int 300), Fin (of_int 250), Fin (of_int 200)]"
    by (rule reconciler_ordering [where r = "\<lparr>message = Some (sampleMessage ''-5956206957953024000'')\<rparr>"])
      (simp_all add: sample_times)
  have 2: "reAddDeletedMessages (sampleLogged [''1048576000''])
       [sampleMessage ''1258291200'', sampleMessage ''838860800'']
       (Some [''1048576000'']) False False
     = Inr [sampleMessage ''1258291200'', sampleMessage ''1048576000'',
            sampleMessage ''838860800'']
    \<and> map (\<lambda>x. idTime (msg_id x))
       [sampleMessage ''1258291200'', sampleMessage ''1048576000'', sampleMessage ''838860800'']
     = [Fin (of_int 1420070400300), Fin (of_int 1420070400250), Fin (of_int 1420070400200)]"
    by (rule reconciler_ordering [where r = "\<lparr>message = Some (sampleMessage ''1048576000'')\<rparr>"])
      (simp_all add: sample_times)
  show ?thesis using 1 2 by simp
qed

end
